theory Spec2Isabelle
  imports Main
begin

section \<open>JavaScript values used by the terminal controller\<close>

text \<open>
  The controller of \<^verbatim>\<open>src/server.ts\<close> keeps its form data in an object of type
  \<^verbatim>\<open>any\<close>, mixes strings and numbers in it and relies on truthiness
  (\<^verbatim>\<open>x || ''\<close>), on \<^verbatim>\<open>String(x)\<close> and on \<^verbatim>\<open>parseFloat\<close>.
  The values are therefore modelled as an untyped datatype.

  A string is the list of its UTF-16 code units, each a number below 65536: the
  capital I with a dot above is \<open>[0x130]\<close>. A literal whose characters are in
  Latin-1 is written \<open>str ''...''\<close>. The names of properties and columns, which
  the program only compares, are kept as they are written in the source.

  A finite number \<open>Fin m e\<close> stands for the decimal \<open>m * 10 ^ e\<close>, kept with no
  trailing zero in \<open>m\<close> (and \<open>e = 0\<close> when \<open>m = 0\<close>): these are the digits
  and the exponent that the host's number-to-string conversion prints. The rounding
  of a decimal literal to a binary64 value, overflow and underflow are not modelled,
  and the two zeros of the host are one value here (the program cannot tell them
  apart: both are falsy and both print as 0).
\<close>

type_synonym jsstring = "nat list"

definition str :: "string \<Rightarrow> jsstring" where
  "str s = map of_char s"

datatype jsnum = NaN | PosInf | NegInf | Fin int int

datatype jsval = JUndef | JNull | JStr jsstring | JNum jsnum | JArr "jsstring list"

type_synonym jsobj = "string \<Rightarrow> jsval"

definition emptyObj :: jsobj where
  "emptyObj = (\<lambda>_. JUndef)"

fun numTruthy :: "jsnum \<Rightarrow> bool" where
  "numTruthy NaN = False"
| "numTruthy PosInf = True"
| "numTruthy NegInf = True"
| "numTruthy (Fin m e) = (m \<noteq> 0)"

fun truthy :: "jsval \<Rightarrow> bool" where
  "truthy JUndef = False"
| "truthy JNull = False"
| "truthy (JStr s) = (s \<noteq> [])"
| "truthy (JNum n) = numTruthy n"
| "truthy (JArr xs) = True"

text \<open>The operator \<^verbatim>\<open>a || b\<close> on values.\<close>

definition jsor :: "jsval \<Rightarrow> jsval \<Rightarrow> jsval" where
  "jsor a b = (if truthy a then a else b)"

subsection \<open>Decimal digits\<close>

definition isDigit :: "nat \<Rightarrow> bool" where
  "isDigit c = (48 \<le> c \<and> c \<le> 57)"

definition digitVal :: "nat \<Rightarrow> nat" where
  "digitVal c = c - 48"

definition digitChar :: "nat \<Rightarrow> nat" where
  "digitChar d = str ''0123456789'' ! d"

text \<open>The value of a run of digits, most significant first.\<close>

definition digitsVal :: "jsstring \<Rightarrow> nat" where
  "digitsVal ds = foldl (\<lambda>acc c. 10 * acc + digitVal c) 0 ds"

function natDigits :: "nat \<Rightarrow> jsstring" where
  "natDigits n = (if n < 10 then [digitChar n] else natDigits (n div 10) @ [digitChar (n mod 10)])"
  by pat_completeness auto
termination
  by (relation "measure id") auto

declare natDigits.simps [simp del]

text \<open>Normal form of a decimal: no trailing zero in the significand.\<close>

function stripZeros :: "nat \<Rightarrow> int \<Rightarrow> nat \<times> int" where
  "stripZeros m e = (if m \<noteq> 0 \<and> m mod 10 = 0 then stripZeros (m div 10) (e + 1) else (m, e))"
  by pat_completeness auto
termination
  by (relation "measure fst") auto

declare stripZeros.simps [simp del]

definition mkFin :: "bool \<Rightarrow> nat \<Rightarrow> int \<Rightarrow> jsnum" where
  "mkFin neg m e =
     (if m = 0 then Fin 0 0
      else (case stripZeros m e of (m', e') \<Rightarrow> Fin (if neg then - int m' else int m') e'))"

subsection \<open>\<^verbatim>\<open>parseFloat\<close>\<close>

text \<open>
  The host function: leading white space is skipped, the longest prefix that is a
  decimal literal (sign, digits, fraction, exponent, or \<^verbatim>\<open>Infinity\<close>) is
  read, and \<open>NaN\<close> is the result when there is none. White space is the white
  space and the line terminators of the language.
\<close>

definition isSpace :: "nat \<Rightarrow> bool" where
  "isSpace c =
     (c \<in> {0x9, 0xA, 0xB, 0xC, 0xD, 0x20, 0xA0, 0x1680, 0x2028, 0x2029, 0x202F, 0x205F,
            0x3000, 0xFEFF} \<or> (0x2000 \<le> c \<and> c \<le> 0x200A))"

text \<open>The exponent part after the digits: used only when a digit follows the sign.\<close>

definition parseExponent :: "jsstring \<Rightarrow> int" where
  "parseExponent s =
     (case s of
        [] \<Rightarrow> 0
      | c # r \<Rightarrow>
          if c = of_char CHR ''e'' \<or> c = of_char CHR ''E'' then
            (case r of
               [] \<Rightarrow> 0
             | d # r' \<Rightarrow>
                 if d = of_char CHR ''-'' then
                   (if takeWhile isDigit r' = [] then 0 else - int (digitsVal (takeWhile isDigit r')))
                 else if d = of_char CHR ''+'' then int (digitsVal (takeWhile isDigit r'))
                 else int (digitsVal (takeWhile isDigit r)))
          else 0)"

definition parseUnsigned :: "bool \<Rightarrow> jsstring \<Rightarrow> jsnum" where
  "parseUnsigned neg s =
     (if take 8 s = str ''Infinity'' then (if neg then NegInf else PosInf)
      else
        let ip = takeWhile isDigit s;
            r = dropWhile isDigit s
        in (case r of
              c # r' \<Rightarrow>
                if c = of_char CHR ''.'' then
                  (let fp = takeWhile isDigit r'
                   in if ip = [] \<and> fp = [] then NaN
                      else mkFin neg (digitsVal (ip @ fp))
                             (parseExponent (dropWhile isDigit r') - int (length fp)))
                else if ip = [] then NaN
                else mkFin neg (digitsVal ip) (parseExponent r)
            | [] \<Rightarrow> if ip = [] then NaN else mkFin neg (digitsVal ip) 0))"

definition parseFloat :: "jsstring \<Rightarrow> jsnum" where
  "parseFloat s =
     (case dropWhile isSpace s of
        [] \<Rightarrow> NaN
      | c # r \<Rightarrow>
          if c = of_char CHR ''-'' then parseUnsigned True r
          else if c = of_char CHR ''+'' then parseUnsigned False r
          else parseUnsigned False (c # r))"

subsection \<open>\<^verbatim>\<open>String(x)\<close>\<close>

definition expSuffix :: "int \<Rightarrow> jsstring" where
  "expSuffix x =
     of_char CHR ''e'' # (if 0 < x then of_char CHR ''+'' else of_char CHR ''-'') #
     natDigits (nat \<bar>x\<bar>)"

text \<open>
  Number to string, radix 10, for the digits \<open>ds\<close> (\<open>k\<close> of them) of the
  significand and the position \<open>n\<close> of the decimal point: the four layouts of the
  language standard.
\<close>

definition layoutDigits :: "jsstring \<Rightarrow> int \<Rightarrow> jsstring" where
  "layoutDigits ds n =
     (let k = int (length ds) in
      if k \<le> n \<and> n \<le> 21 then ds @ replicate (nat (n - k)) (of_char CHR ''0'')
      else if 0 < n \<and> n \<le> 21 then take (nat n) ds @ of_char CHR ''.'' # drop (nat n) ds
      else if - 6 < n \<and> n \<le> 0 then str ''0.'' @ replicate (nat (- n)) (of_char CHR ''0'') @ ds
      else if k = 1 then ds @ expSuffix (n - 1)
      else take 1 ds @ of_char CHR ''.'' # drop 1 ds @ expSuffix (n - 1))"

fun numToString :: "jsnum \<Rightarrow> jsstring" where
  "numToString NaN = str ''NaN''"
| "numToString PosInf = str ''Infinity''"
| "numToString NegInf = str ''-Infinity''"
| "numToString (Fin m e) =
     (if m = 0 then str ''0''
      else (if m < 0 then str ''-'' else []) @
           layoutDigits (natDigits (nat \<bar>m\<bar>)) (int (length (natDigits (nat \<bar>m\<bar>))) + e))"

fun joinComma :: "jsstring list \<Rightarrow> jsstring" where
  "joinComma [] = []"
| "joinComma [x] = x"
| "joinComma (x # y # ys) = x @ of_char CHR '','' # joinComma (y # ys)"

fun toStr :: "jsval \<Rightarrow> jsstring" where
  "toStr JUndef = str ''undefined''"
| "toStr JNull = str ''null''"
| "toStr (JStr s) = s"
| "toStr (JNum n) = numToString n"
| "toStr (JArr xs) = joinComma xs"


subsection \<open>String methods\<close>

text \<open>
  \<^verbatim>\<open>toLowerCase\<close> is the default case conversion of the Unicode standard:
  every character goes to its lower-case mapping, with two exceptions that make the
  result depend on more than the unit itself. The capital I with a dot above
  (U+0130) becomes two units, \<open>i\<close> and the combining dot above (U+0307). The capital
  sigma (U+03A3) becomes the final small sigma (U+03C2) when a cased letter stands
  before it and none after it, case-ignorable characters being skipped on both sides,
  and the small sigma (U+03C3) otherwise.

  The tables below are those of the code units of Basic Latin, Latin-1 Supplement and
  Latin Extended-A (U+0000 to U+017F, which hold the Turkish alphabet) and of the
  Greek letters U+0391 to U+03CE. A unit outside these ranges is left as it is, which
  is not what the host does with all of them: the statements that depend on the
  mapping are made for text inside the ranges.
\<close>

definition covered :: "nat \<Rightarrow> bool" where
  "covered c = (c \<le> 0x17F \<or> (0x391 \<le> c \<and> c \<le> 0x3CE))"

text \<open>The lower-case mapping of one character.\<close>

definition lowerUnit :: "nat \<Rightarrow> nat" where
  "lowerUnit c =
     (if (0x41 \<le> c \<and> c \<le> 0x5A) \<or> (0xC0 \<le> c \<and> c \<le> 0xDE \<and> c \<noteq> 0xD7) \<or>
         (0x391 \<le> c \<and> c \<le> 0x3AB \<and> c \<noteq> 0x3A2)
      then c + 32
      else if (0x100 \<le> c \<and> c \<le> 0x137 \<and> even c \<and> c \<noteq> 0x130) \<or>
              (0x139 \<le> c \<and> c \<le> 0x148 \<and> odd c) \<or>
              (0x14A \<le> c \<and> c \<le> 0x177 \<and> even c) \<or>
              (0x179 \<le> c \<and> c \<le> 0x17E \<and> odd c)
      then c + 1
      else if c = 0x178 then 0xFF
      else c)"

text \<open>The characters that have a case, and those that the test for a final sigma
  skips (apostrophe, full stop, colon, the spacing accents, the soft hyphen and the
  middle dot).\<close>

definition isCased :: "nat \<Rightarrow> bool" where
  "isCased c =
     ((0x41 \<le> c \<and> c \<le> 0x5A) \<or> (0x61 \<le> c \<and> c \<le> 0x7A) \<or> c = 0xAA \<or> c = 0xB5 \<or>
      c = 0xBA \<or> (0xC0 \<le> c \<and> c \<le> 0xD6) \<or> (0xD8 \<le> c \<and> c \<le> 0xF6) \<or>
      (0xF8 \<le> c \<and> c \<le> 0x17F) \<or> (0x391 \<le> c \<and> c \<le> 0x3A1) \<or>
      (0x3A3 \<le> c \<and> c \<le> 0x3CE))"

definition isCaseIgnorable :: "nat \<Rightarrow> bool" where
  "isCaseIgnorable c =
     (c \<in> {0x27, 0x2E, 0x3A, 0x5E, 0x60, 0xA8, 0xAD, 0xAF, 0xB4, 0xB7, 0xB8})"

text \<open>Going away from the sigma: case-ignorable characters, then a cased letter.\<close>

fun casedAfterIgnorable :: "jsstring \<Rightarrow> bool" where
  "casedAfterIgnorable [] = False"
| "casedAfterIgnorable (c # cs) = (isCased c \<or> (isCaseIgnorable c \<and> casedAfterIgnorable cs))"

text \<open>The units of \<open>s\<close> in lower case; \<open>before\<close> holds the units already passed,
  the nearest first.\<close>

fun lowerFrom :: "jsstring \<Rightarrow> jsstring \<Rightarrow> jsstring" where
  "lowerFrom before [] = []"
| "lowerFrom before (c # after) =
     (if c = 0x130 then [0x69, 0x307]
      else if c = 0x3A3 then
        [if casedAfterIgnorable before \<and> \<not> casedAfterIgnorable after then 0x3C2 else 0x3C3]
      else [lowerUnit c]) @ lowerFrom (c # before) after"

definition toLowerCase :: "jsstring \<Rightarrow> jsstring" where
  "toLowerCase s = lowerFrom [] s"

text \<open>\<^verbatim>\<open>s.includes(t)\<close>: \<open>t\<close> occurs in \<open>s\<close> as a contiguous run.\<close>

fun startsWith :: "jsstring \<Rightarrow> jsstring \<Rightarrow> bool" where
  "startsWith s [] = True"
| "startsWith [] (d # t) = False"
| "startsWith (c # s) (d # t) = (c = d \<and> startsWith s t)"

fun includesStr :: "jsstring \<Rightarrow> jsstring \<Rightarrow> bool" where
  "includesStr [] t = (t = [])"
| "includesStr (c # s) t = (startsWith (c # s) t \<or> includesStr s t)"

section \<open>The store\<close>

text \<open>
  The two tables read and written by the terminal controller (\<^verbatim>\<open>customerOps\<close>
  and \<^verbatim>\<open>productOps\<close>, lines 172 to 319). A table is the list of its rows in
  storage order and a row maps a column name to its value. SQL \<open>NULL\<close> is
  \<open>JNull\<close> (or \<open>JUndef\<close> for a column never bound). The constraints of the
  schema (lines 108 to 137) that the statements can violate are checked:
  \<open>PRIMARY KEY\<close>, \<open>NOT NULL\<close> and \<open>UNIQUE\<close>. The column
  \<^verbatim>\<open>created_at\<close> and the type affinity of the columns are outside the model.
\<close>

record store =
  customers :: "jsobj list"
  products :: "jsobj list"

datatype db_error = NotNullFailed string | UniqueFailed string

datatype js_error = TypeError

datatype error = DbError db_error | JsError js_error

definition isNull :: "jsval \<Rightarrow> bool" where
  "isNull v = (v = JUndef \<or> v = JNull)"

text \<open>The condition \<^verbatim>\<open>WHERE id = ?\<close>: never true for a null parameter.\<close>

definition idIs :: "jsval \<Rightarrow> jsobj \<Rightarrow> bool" where
  "idIs i r = (\<not> isNull i \<and> r ''id'' = i)"

definition customerColumns :: "string list" where
  "customerColumns =
     [''CustomerName'', ''CustomerPhone'', ''CustomerAddress'', ''CustomerTCKN'',
      ''CustomerVD'', ''CustomerDebt'', ''CustomerBalance'']"

definition productColumns :: "string list" where
  "productColumns =
     [''ProductCode'', ''Details'', ''Barcode'', ''Price'', ''Category'',
      ''ActualInventory'', ''ReservedInventory'', ''AwaitingInventory'']"

text \<open>The three list columns of a customer are parsed on every read, an empty list
  standing for a null column (lines 199 to 204 and 212 to 217).\<close>

definition parseLists :: "jsobj \<Rightarrow> jsobj" where
  "parseLists row =
     row(''CustomerPayments'' := jsor (row ''CustomerPayments'') (JArr []),
         ''CustomerOrders'' := jsor (row ''CustomerOrders'') (JArr []),
         ''CustomerShipments'' := jsor (row ''CustomerShipments'') (JArr []))"

definition customerGetAll :: "store \<Rightarrow> jsobj list" where
  "customerGetAll st = map parseLists (customers st)"

definition customerGetById :: "store \<Rightarrow> jsval \<Rightarrow> jsobj option" where
  "customerGetById st i =
     (case filter (idIs i) (customers st) of [] \<Rightarrow> None | row # _ \<Rightarrow> Some (parseLists row))"

definition productGetAll :: "store \<Rightarrow> jsobj list" where
  "productGetAll st = products st"

definition productGetById :: "store \<Rightarrow> jsval \<Rightarrow> jsobj option" where
  "productGetById st i =
     (case filter (idIs i) (products st) of [] \<Rightarrow> None | row # _ \<Rightarrow> Some row)"

text \<open>\<^verbatim>\<open>customerOps.create\<close> (lines 173 to 195); \<open>uuid\<close> is what
  \<^verbatim>\<open>crypto.randomUUID()\<close> returns. The result is the new store and the object
  returned, \<^verbatim>\<open>{ id, ...customer }\<close>.\<close>

definition customerCreate :: "jsstring \<Rightarrow> store \<Rightarrow> jsobj \<Rightarrow> db_error + store \<times> jsobj" where
  "customerCreate uuid st customer =
     (let row = emptyObj
            (''id'' := JStr uuid,
             ''CustomerName'' := customer ''CustomerName'',
             ''CustomerPhone'' := customer ''CustomerPhone'',
             ''CustomerAddress'' := customer ''CustomerAddress'',
             ''CustomerTCKN'' := customer ''CustomerTCKN'',
             ''CustomerVD'' := customer ''CustomerVD'',
             ''CustomerDebt'' := customer ''CustomerDebt'',
             ''CustomerBalance'' := customer ''CustomerBalance'',
             ''CustomerPayments'' := jsor (customer ''CustomerPayments'') (JArr []),
             ''CustomerOrders'' := jsor (customer ''CustomerOrders'') (JArr []),
             ''CustomerShipments'' := jsor (customer ''CustomerShipments'') (JArr []))
      in if isNull (row ''CustomerName'') then Inl (NotNullFailed ''customers.CustomerName'')
         else if list_ex (\<lambda>r. r ''id'' = JStr uuid) (customers st)
         then Inl (UniqueFailed ''customers.id'')
         else Inr (st\<lparr>customers := customers st @ [row]\<rparr>,
                   customer(''id'' :=
                     (if customer ''id'' = JUndef then JStr uuid else customer ''id''))))"


text \<open>The \<^verbatim>\<open>UPDATE\<close> statement of lines 224 to 239 on one row: every column of
  the statement is bound to \<^verbatim>\<open>updates.X || current.X\<close>.\<close>

definition boundRow :: "string list \<Rightarrow> jsobj \<Rightarrow> jsobj \<Rightarrow> jsobj \<Rightarrow> jsobj" where
  "boundRow cols updates current row =
     (\<lambda>f. if f \<in> set cols then jsor (updates f) (current f) else row f)"

text \<open>\<^verbatim>\<open>customerOps.update\<close> (lines 220 to 242): \<open>None\<close> is the
  \<^verbatim>\<open>null\<close> returned when no row has the id.\<close>

definition customerUpdate :: "store \<Rightarrow> jsval \<Rightarrow> jsobj \<Rightarrow> db_error + store \<times> jsobj option" where
  "customerUpdate st i updates =
     (case customerGetById st i of
        None \<Rightarrow> Inr (st, None)
      | Some current \<Rightarrow>
          if isNull (jsor (updates ''CustomerName'') (current ''CustomerName''))
          then Inl (NotNullFailed ''customers.CustomerName'')
          else
            let st' = st\<lparr>customers :=
                  map (\<lambda>row. if idIs i row then boundRow customerColumns updates current row else row)
                    (customers st)\<rparr>
            in Inr (st', customerGetById st' i))"

text \<open>\<^verbatim>\<open>customerOps.delete\<close> (lines 244 to 248): the flag is
  \<^verbatim>\<open>result.changes > 0\<close>.\<close>

definition customerDelete :: "store \<Rightarrow> jsval \<Rightarrow> store \<times> bool" where
  "customerDelete st i =
     (st\<lparr>customers := filter (\<lambda>row. \<not> idIs i row) (customers st)\<rparr>,
      list_ex (idIs i) (customers st))"

text \<open>\<^verbatim>\<open>productOps.create\<close> (lines 252 to 272).\<close>

definition productCreate :: "jsstring \<Rightarrow> store \<Rightarrow> jsobj \<Rightarrow> db_error + store \<times> jsobj" where
  "productCreate uuid st product =
     (let row = emptyObj
            (''id'' := JStr uuid,
             ''ProductCode'' := product ''ProductCode'',
             ''Details'' := product ''Details'',
             ''Barcode'' := product ''Barcode'',
             ''Price'' := product ''Price'',
             ''Category'' := product ''Category'',
             ''ActualInventory'' := product ''ActualInventory'',
             ''ReservedInventory'' := product ''ReservedInventory'',
             ''AwaitingInventory'' := product ''AwaitingInventory'')
      in if isNull (row ''ProductCode'') then Inl (NotNullFailed ''products.ProductCode'')
         else if isNull (row ''Price'') then Inl (NotNullFailed ''products.Price'')
         else if list_ex (\<lambda>r. r ''id'' = JStr uuid) (products st)
         then Inl (UniqueFailed ''products.id'')
         else if list_ex (\<lambda>r. r ''ProductCode'' = row ''ProductCode'') (products st)
         then Inl (UniqueFailed ''products.ProductCode'')
         else Inr (st\<lparr>products := products st @ [row]\<rparr>,
                   product(''id'' :=
                     (if product ''id'' = JUndef then JStr uuid else product ''id''))))"

text \<open>\<^verbatim>\<open>productOps.update\<close> (lines 289 to 312).\<close>

definition productUpdate :: "store \<Rightarrow> jsval \<Rightarrow> jsobj \<Rightarrow> db_error + store \<times> jsobj option" where
  "productUpdate st i updates =
     (case productGetById st i of
        None \<Rightarrow> Inr (st, None)
      | Some current \<Rightarrow>
          if isNull (jsor (updates ''ProductCode'') (current ''ProductCode''))
          then Inl (NotNullFailed ''products.ProductCode'')
          else if isNull (jsor (updates ''Price'') (current ''Price''))
          then Inl (NotNullFailed ''products.Price'')
          else if list_ex (\<lambda>r. \<not> idIs i r \<and>
                    r ''ProductCode'' = jsor (updates ''ProductCode'') (current ''ProductCode''))
                  (products st)
          then Inl (UniqueFailed ''products.ProductCode'')
          else
            let st' = st\<lparr>products :=
                  map (\<lambda>row. if idIs i row then boundRow productColumns updates current row else row)
                    (products st)\<rparr>
            in Inr (st', productGetById st' i))"

text \<open>\<^verbatim>\<open>productOps.delete\<close> (lines 314 to 318).\<close>

definition productDelete :: "store \<Rightarrow> jsval \<Rightarrow> store \<times> bool" where
  "productDelete st i =
     (st\<lparr>products := filter (\<lambda>row. \<not> idIs i row) (products st)\<rparr>,
      list_ex (idIs i) (products st))"

section \<open>The terminal controller\<close>

subsection \<open>Session state\<close>

text \<open>The six values of \<^verbatim>\<open>currentView\<close> (line 719).\<close>

datatype view =
  MainMenu | CustomerList | ProductList | CustomerForm | ProductForm | ConfirmAction

text \<open>\<^verbatim>\<open>currentView.endsWith('-form')\<close> and \<^verbatim>\<open>endsWith('-list')\<close>.\<close>

definition endsWithForm :: "view \<Rightarrow> bool" where
  "endsWithForm v = (v = CustomerForm \<or> v = ProductForm)"

definition endsWithList :: "view \<Rightarrow> bool" where
  "endsWithList v = (v = CustomerList \<or> v = ProductList)"

datatype confirm_action = Save | Delete

text \<open>The texts shown to the user are not ASCII; each is a constructor here. The
  confirmation text carries the record's name, or the default wording for a customer
  or a product, and for a save whether it is an update (lines 1113 to 1121 and 1130
  to 1137).\<close>

datatype record_name = Named jsstring | ThisCustomer | ThisProduct

datatype confirm_message = ConfirmSave record_name bool | ConfirmDelete record_name

record tui_state =
  currentView :: view
  selectedIndex :: int
  searchFilter :: jsstring
  isSearching :: bool
  formData :: jsobj
  formStep :: nat
  editingId :: jsval
  inputBuffer :: jsstring
  confirmIndex :: int
  previousView :: "view option"
  confirmAction :: "confirm_action option"
  confirmMessage :: "confirm_message option"

text \<open>The initial value of \<^verbatim>\<open>tuiState\<close> (lines 733 to 742).\<close>

definition initialState :: tui_state where
  "initialState =
     \<lparr>currentView = MainMenu, selectedIndex = 0, searchFilter = [], isSearching = False,
      formData = emptyObj, formStep = 0, editingId = JUndef, inputBuffer = [],
      confirmIndex = 0, previousView = None, confirmAction = None, confirmMessage = None\<rparr>"

subsection \<open>Form definitions\<close>

text \<open>A step of a form (lines 745 to 764); \<open>numeric\<close> is \<^verbatim>\<open>type === 'number'\<close>.
  The labels are display text and are left out.\<close>

record form_step =
  field :: string
  required :: bool
  numeric :: bool

definition customerFormSteps :: "form_step list" where
  "customerFormSteps =
     [\<lparr>field = ''CustomerName'', required = True, numeric = False\<rparr>,
      \<lparr>field = ''CustomerPhone'', required = False, numeric = False\<rparr>,
      \<lparr>field = ''CustomerAddress'', required = False, numeric = False\<rparr>,
      \<lparr>field = ''CustomerTCKN'', required = False, numeric = False\<rparr>,
      \<lparr>field = ''CustomerVD'', required = False, numeric = False\<rparr>,
      \<lparr>field = ''CustomerDebt'', required = False, numeric = True\<rparr>,
      \<lparr>field = ''CustomerBalance'', required = False, numeric = True\<rparr>]"

definition productFormSteps :: "form_step list" where
  "productFormSteps =
     [\<lparr>field = ''ProductCode'', required = True, numeric = False\<rparr>,
      \<lparr>field = ''Details'', required = False, numeric = False\<rparr>,
      \<lparr>field = ''Barcode'', required = False, numeric = False\<rparr>,
      \<lparr>field = ''Price'', required = True, numeric = True\<rparr>,
      \<lparr>field = ''Category'', required = False, numeric = False\<rparr>,
      \<lparr>field = ''ActualInventory'', required = False, numeric = True\<rparr>,
      \<lparr>field = ''ReservedInventory'', required = False, numeric = True\<rparr>,
      \<lparr>field = ''AwaitingInventory'', required = False, numeric = True\<rparr>]"


subsection \<open>Keys\<close>

text \<open>A key event is the string \<^verbatim>\<open>data.toString()\<close> (line 1101). These are the
  strings that the handlers compare it with.\<close>

definition keyCtrlC :: jsstring where "keyCtrlC = [0x03]"
definition keyCtrlS :: jsstring where "keyCtrlS = [0x13]"
definition keyCtrlD :: jsstring where "keyCtrlD = [0x04]"
definition keyCtrlN :: jsstring where "keyCtrlN = [0x0E]"
definition keyEsc :: jsstring where "keyEsc = [0x1B]"
definition keyUp :: jsstring where "keyUp = [0x1B, 0x5B, 0x41]"
definition keyDown :: jsstring where "keyDown = [0x1B, 0x5B, 0x42]"
definition keyRight :: jsstring where "keyRight = [0x1B, 0x5B, 0x43]"
definition keyLeft :: jsstring where "keyLeft = [0x1B, 0x5B, 0x44]"
definition keyTab :: jsstring where "keyTab = [0x09]"

text \<open>\<^verbatim>\<open>key === '\r' || key === '\n'\<close>\<close>

definition isEnter :: "jsstring \<Rightarrow> bool" where
  "isEnter key = (key = [0x0D] \<or> key = [0x0A])"

text \<open>\<^verbatim>\<open>key === '\x7f' || key === '\b'\<close>\<close>

definition isBackspace :: "jsstring \<Rightarrow> bool" where
  "isBackspace key = (key = [0x7F] \<or> key = [0x08])"

text \<open>\<^verbatim>\<open>key.length === 1 && key >= ' '\<close>\<close>

definition isRegular :: "jsstring \<Rightarrow> bool" where
  "isRegular key = (case key of [c] \<Rightarrow> 32 \<le> c | _ \<Rightarrow> False)"

subsection \<open>Effects\<close>

text \<open>
  Beside the session state a key event can repaint the screen, call the store and
  start a timer. The world records all three: the paint requests in order (what the
  painters draw from the state is outside the model), the calls made to the store in
  order, and the timers started and not yet fired, each with its delay in
  milliseconds and its callback.
\<close>

datatype entity = Customers | Products

datatype store_call =
  CallGetAll entity | CallCreate entity | CallUpdate entity jsval | CallDelete entity jsval

datatype form_title = NewCustomer | EditCustomer | NewProduct | EditProduct

datatype message =
  CustomerUpdated | CustomerCreated | ProductUpdated | ProductCreated
| CustomerDeleted | ProductDeleted | SaveError error | DeleteError error

datatype paint =
  DrawMainMenu
| DrawListView bool
| DrawForm form_title bool
| DrawConfirmation "confirm_message option" confirm_action
| ShowMessage message bool
| ShowStats

datatype timer_callback = MessageReturn | StatsReturn

record world =
  tui :: tui_state
  db :: store
  timers :: "(nat \<times> timer_callback) list"
  paints :: "paint list"
  calls :: "store_call list"

text \<open>What a key event ends with: the handler returns, the process exits
  (\<^verbatim>\<open>cleanup(); process.exit(0)\<close>), or an exception leaves the handler.\<close>

datatype outcome = Continue world | Exit | Crash js_error

definition drawn :: "paint \<Rightarrow> world \<Rightarrow> world" where
  "drawn p w = w\<lparr>paints := paints w @ [p]\<rparr>"

definition called :: "store_call \<Rightarrow> world \<Rightarrow> world" where
  "called c w = w\<lparr>calls := calls w @ [c]\<rparr>"

definition setTimeout :: "timer_callback \<Rightarrow> nat \<Rightarrow> world \<Rightarrow> world" where
  "setTimeout cb ms w = w\<lparr>timers := timers w @ [(ms, cb)]\<rparr>"

subsection \<open>Filtering\<close>

text \<open>\<^verbatim>\<open>(record.X || '').toLowerCase()\<close>: a truthy value that is not a string
  has no such method.\<close>

definition lowerOf :: "jsval \<Rightarrow> js_error + jsstring" where
  "lowerOf v =
     (case jsor v (JStr []) of JStr s \<Rightarrow> Inr (toLowerCase s) | _ \<Rightarrow> Inl TypeError)"

text \<open>The chain of \<^verbatim>\<open>||\<close> of lines 827 to 829 and 831 to 833: the fields are
  tried in order and the first that contains the term ends the chain.\<close>

fun anyFieldIncludes :: "string list \<Rightarrow> jsstring \<Rightarrow> jsobj \<Rightarrow> js_error + bool" where
  "anyFieldIncludes [] term record = Inr False"
| "anyFieldIncludes (f # fs) term record =
     (case lowerOf (record f) of
        Inl e \<Rightarrow> Inl e
      | Inr s \<Rightarrow> if includesStr s term then Inr True else anyFieldIncludes fs term record)"

text \<open>\<^verbatim>\<open>Array.prototype.filter\<close> with a callback that can throw.\<close>

fun filterThrowing :: "('a \<Rightarrow> js_error + bool) \<Rightarrow> 'a list \<Rightarrow> js_error + 'a list" where
  "filterThrowing p [] = Inr []"
| "filterThrowing p (x # xs) =
     (case p x of
        Inl e \<Rightarrow> Inl e
      | Inr b \<Rightarrow>
          (case filterThrowing p xs of
             Inl e \<Rightarrow> Inl e
           | Inr ys \<Rightarrow> Inr (if b then x # ys else ys)))"

text \<open>\<^verbatim>\<open>filterRecords\<close> (lines 821 to 836).\<close>

definition filterRecords :: "jsobj list \<Rightarrow> jsstring \<Rightarrow> bool \<Rightarrow> js_error + jsobj list" where
  "filterRecords records searchTerm isCustomer =
     (if searchTerm = [] then Inr records
      else
        let term = toLowerCase searchTerm in
        filterThrowing
          (anyFieldIncludes
             (if isCustomer then [''CustomerName'', ''CustomerPhone'', ''CustomerTCKN'']
              else [''ProductCode'', ''Details'', ''Barcode''])
             term)
          records)"

subsection \<open>Transient screens and their timers\<close>

text \<open>\<^verbatim>\<open>showMessage\<close> (lines 1015 to 1057) paints and starts the timer of
  2000 ms; the session state is not touched.\<close>

definition showMessage :: "message \<Rightarrow> bool \<Rightarrow> world \<Rightarrow> world" where
  "showMessage msg isError w = setTimeout MessageReturn 2000 (drawn (ShowMessage msg isError) w)"

text \<open>The callback of that timer (lines 1033 to 1056).\<close>

definition messageReturn :: "world \<Rightarrow> world" where
  "messageReturn w =
     (if previousView (tui w) = Some CustomerForm then
        drawn (DrawListView True) (called (CallGetAll Customers)
          (w\<lparr>tui := (tui w)\<lparr>currentView := CustomerList, selectedIndex := 0,
                isSearching := False, searchFilter := [], inputBuffer := [],
                editingId := JUndef, formData := emptyObj\<rparr>\<rparr>))
      else
        drawn (DrawListView False) (called (CallGetAll Products)
          (w\<lparr>tui := (tui w)\<lparr>currentView := ProductList, selectedIndex := 0,
                isSearching := False, searchFilter := [], inputBuffer := [],
                editingId := JUndef, formData := emptyObj\<rparr>\<rparr>)))"

text \<open>\<^verbatim>\<open>showStats\<close> (lines 1492 to 1525) paints the counts and starts the timer
  of 3000 ms.\<close>

definition showStats :: "world \<Rightarrow> world" where
  "showStats w = setTimeout StatsReturn 3000 (drawn ShowStats w)"

text \<open>The callback of that timer (lines 1520 to 1524).\<close>

definition statsReturn :: "world \<Rightarrow> world" where
  "statsReturn w =
     drawn DrawMainMenu (w\<lparr>tui := (tui w)\<lparr>currentView := MainMenu, selectedIndex := 0\<rparr>\<rparr>)"

fun runCallback :: "timer_callback \<Rightarrow> world \<Rightarrow> world" where
  "runCallback MessageReturn w = messageReturn w"
| "runCallback StatsReturn w = statsReturn w"

text \<open>The host fires the pending timer at position \<open>i\<close>: it leaves the pending
  list and its callback runs. Nothing else takes a timer off the list: the program
  never calls \<^verbatim>\<open>clearTimeout\<close>.\<close>

definition fireTimer :: "nat \<Rightarrow> world \<Rightarrow> world option" where
  "fireTimer i w =
     (if i < length (timers w)
      then Some (runCallback (snd (timers w ! i))
                  (w\<lparr>timers := take i (timers w) @ drop (Suc i) (timers w)\<rparr>))
      else None)"


subsection \<open>Form fields\<close>

definition stepsOf :: "bool \<Rightarrow> form_step list" where
  "stepsOf isCustomer = (if isCustomer then customerFormSteps else productFormSteps)"

text \<open>
  The fragment under the comment \<^verbatim>\<open>// Save current field\<close>, which stands three
  times in the source (lines 1066 to 1070, 1085 to 1089 and 1433 to 1437):
  \<^verbatim>\<open>
  if (currentStep.type === 'number' && tuiState.inputBuffer) {
    tuiState.formData[currentStep.field] = parseFloat(tuiState.inputBuffer) || 0;
  } else {
    tuiState.formData[currentStep.field] = tuiState.inputBuffer || '';
  }\<close>
\<close>

definition saveCurrentField :: "form_step \<Rightarrow> tui_state \<Rightarrow> tui_state" where
  "saveCurrentField currentStep s =
     (if numeric currentStep \<and> inputBuffer s \<noteq> [] then
        s\<lparr>formData := (formData s)
            (field currentStep :=
               JNum (if numTruthy (parseFloat (inputBuffer s)) then parseFloat (inputBuffer s)
                     else Fin 0 0))\<rparr>
      else
        s\<lparr>formData := (formData s)(field currentStep := JStr (inputBuffer s))\<rparr>)"

text \<open>\<^verbatim>\<open>String(tuiState.formData[step.field] || '')\<close>\<close>

definition bufferOf :: "jsobj \<Rightarrow> form_step \<Rightarrow> jsstring" where
  "bufferOf fd step = toStr (jsor (fd (field step)) (JStr []))"

text \<open>\<^verbatim>\<open>moveToNextField\<close> (lines 1061 to 1078). Reading
  \<^verbatim>\<open>steps[tuiState.formStep]\<close> past the end gives \<^verbatim>\<open>undefined\<close>, whose
  \<^verbatim>\<open>type\<close> cannot be read.\<close>

definition moveToNextField :: "tui_state \<Rightarrow> js_error + tui_state" where
  "moveToNextField s =
     (let steps = stepsOf (currentView s = CustomerForm) in
      if formStep s < length steps then
        let s1 = saveCurrentField (steps ! formStep s) s in
        if int (formStep s1) < int (length steps) - 1 then
          Inr (s1\<lparr>formStep := formStep s1 + 1,
                   inputBuffer := bufferOf (formData s1) (steps ! (formStep s1 + 1))\<rparr>)
        else Inr s1
      else Inl TypeError)"

text \<open>\<^verbatim>\<open>moveToPrevField\<close> (lines 1080 to 1097).\<close>

definition moveToPrevField :: "tui_state \<Rightarrow> js_error + tui_state" where
  "moveToPrevField s =
     (let steps = stepsOf (currentView s = CustomerForm) in
      if formStep s < length steps then
        let s1 = saveCurrentField (steps ! formStep s) s in
        if formStep s1 > 0 then
          Inr (s1\<lparr>formStep := formStep s1 - 1,
                   inputBuffer := bufferOf (formData s1) (steps ! (formStep s1 - 1))\<rparr>)
        else Inr s1
      else Inl TypeError)"

text \<open>The title computed before each repaint of a form (for instance lines 1371 to
  1374); the flag of \<^verbatim>\<open>drawForm\<close> is \<^verbatim>\<open>!!tuiState.editingId\<close>.\<close>

definition formTitle :: "tui_state \<Rightarrow> form_title" where
  "formTitle s =
     (if currentView s = CustomerForm
      then (if truthy (editingId s) then EditCustomer else NewCustomer)
      else (if truthy (editingId s) then EditProduct else NewProduct))"

definition redrawForm :: "tui_state \<Rightarrow> world \<Rightarrow> world" where
  "redrawForm s w = drawn (DrawForm (formTitle s) (truthy (editingId s))) (w\<lparr>tui := s\<rparr>)"

text \<open>\<^verbatim>\<open>handleFormView\<close> (lines 1360 to 1402). The buffer is a string in every
  state, so the initialisation of lines 1364 to 1367 never runs.\<close>

definition handleFormView :: "jsstring \<Rightarrow> world \<Rightarrow> outcome" where
  "handleFormView key w =
     (if key = keyUp then
        (case moveToPrevField (tui w) of
           Inl e \<Rightarrow> Crash e
         | Inr s \<Rightarrow> Continue (redrawForm s w))
      else if key = keyDown then
        (case moveToNextField (tui w) of
           Inl e \<Rightarrow> Crash e
         | Inr s \<Rightarrow> Continue (redrawForm s w))
      else if key = keyTab \<or> isEnter key then
        (case moveToNextField (tui w) of
           Inl e \<Rightarrow> Crash e
         | Inr s \<Rightarrow> Continue (redrawForm s w))
      else if isBackspace key then
        (if inputBuffer (tui w) \<noteq> []
         then Continue (redrawForm ((tui w)\<lparr>inputBuffer := butlast (inputBuffer (tui w))\<rparr>) w)
         else Continue w)
      else if isRegular key then
        Continue (redrawForm ((tui w)\<lparr>inputBuffer := inputBuffer (tui w) @ key\<rparr>) w)
      else Continue w)"

subsection \<open>Confirmation\<close>

text \<open>\<^verbatim>\<open>executeFormSave\<close> (lines 1426 to 1460). The whole body is inside
  \<^verbatim>\<open>try\<close>: an exception of the store, or of reading a step past the end,
  becomes the error message. The buffer is a string, so the test of line 1429 holds.\<close>

definition executeFormSave :: "jsstring \<Rightarrow> world \<Rightarrow> world" where
  "executeFormSave uuid w =
     (let steps = stepsOf (previousView (tui w) = Some CustomerForm) in
      if \<not> formStep (tui w) < length steps then
        showMessage (SaveError (JsError TypeError)) True w
      else
        let s = saveCurrentField (steps ! formStep (tui w)) (tui w);
            w1 = w\<lparr>tui := s\<rparr>
        in
        if previousView s = Some CustomerForm then
          (if truthy (editingId s) then
             (case customerUpdate (db w1) (editingId s) (formData s) of
                Inl e \<Rightarrow>
                  showMessage (SaveError (DbError e)) True
                    (called (CallUpdate Customers (editingId s)) w1)
              | Inr (st, updated) \<Rightarrow>
                  showMessage CustomerUpdated False
                    (called (CallUpdate Customers (editingId s)) (w1\<lparr>db := st\<rparr>)))
           else
             (case customerCreate uuid (db w1) (formData s) of
                Inl e \<Rightarrow>
                  showMessage (SaveError (DbError e)) True (called (CallCreate Customers) w1)
              | Inr (st, created) \<Rightarrow>
                  showMessage CustomerCreated False
                    (called (CallCreate Customers) (w1\<lparr>db := st\<rparr>))))
        else if previousView s = Some ProductForm then
          (if truthy (editingId s) then
             (case productUpdate (db w1) (editingId s) (formData s) of
                Inl e \<Rightarrow>
                  showMessage (SaveError (DbError e)) True
                    (called (CallUpdate Products (editingId s)) w1)
              | Inr (st, updated) \<Rightarrow>
                  showMessage ProductUpdated False
                    (called (CallUpdate Products (editingId s)) (w1\<lparr>db := st\<rparr>)))
           else
             (case productCreate uuid (db w1) (formData s) of
                Inl e \<Rightarrow>
                  showMessage (SaveError (DbError e)) True (called (CallCreate Products) w1)
              | Inr (st, created) \<Rightarrow>
                  showMessage ProductCreated False
                    (called (CallCreate Products) (w1\<lparr>db := st\<rparr>))))
        else w1)"

text \<open>\<^verbatim>\<open>executeFormDelete\<close> (lines 1462 to 1474). The flag returned by
  \<^verbatim>\<open>delete\<close> is dropped; the statement violates no constraint of the model,
  so the \<^verbatim>\<open>catch\<close> of line 1471 has no case here.\<close>

definition executeFormDelete :: "world \<Rightarrow> world" where
  "executeFormDelete w =
     (if previousView (tui w) = Some CustomerForm then
        (case customerDelete (db w) (editingId (tui w)) of
           (st, deleted) \<Rightarrow>
             showMessage CustomerDeleted False
               (called (CallDelete Customers (editingId (tui w))) (w\<lparr>db := st\<rparr>)))
      else if previousView (tui w) = Some ProductForm then
        (case productDelete (db w) (editingId (tui w)) of
           (st, deleted) \<Rightarrow>
             showMessage ProductDeleted False
               (called (CallDelete Products (editingId (tui w))) (w\<lparr>db := st\<rparr>)))
      else w)"

text \<open>\<^verbatim>\<open>returnToForm\<close> (lines 1476 to 1490).\<close>

definition returnToForm :: "world \<Rightarrow> outcome" where
  "returnToForm w =
     (if previousView (tui w) = Some CustomerForm then
        (if formStep (tui w) < length customerFormSteps then
           Continue (redrawForm
             ((tui w)\<lparr>currentView := CustomerForm,
                 inputBuffer := bufferOf (formData (tui w)) (customerFormSteps ! formStep (tui w))\<rparr>) w)
         else Crash TypeError)
      else if previousView (tui w) = Some ProductForm then
        (if formStep (tui w) < length productFormSteps then
           Continue (redrawForm
             ((tui w)\<lparr>currentView := ProductForm,
                 inputBuffer := bufferOf (formData (tui w)) (productFormSteps ! formStep (tui w))\<rparr>) w)
         else Crash TypeError)
      else Continue w)"

text \<open>\<^verbatim>\<open>drawConfirmation(tuiState.confirmMessage || '', tuiState.confirmAction || 'save')\<close>\<close>

definition redrawConfirmation :: "tui_state \<Rightarrow> world \<Rightarrow> world" where
  "redrawConfirmation s w =
     drawn (DrawConfirmation (confirmMessage s)
              (case confirmAction s of None \<Rightarrow> Save | Some a \<Rightarrow> a))
       (w\<lparr>tui := s\<rparr>)"

text \<open>\<^verbatim>\<open>handleConfirmation\<close> (lines 1404 to 1424).\<close>

definition handleConfirmation :: "jsstring \<Rightarrow> jsstring \<Rightarrow> world \<Rightarrow> outcome" where
  "handleConfirmation uuid key w =
     (if key = keyLeft then Continue (redrawConfirmation ((tui w)\<lparr>confirmIndex := 0\<rparr>) w)
      else if key = keyRight then Continue (redrawConfirmation ((tui w)\<lparr>confirmIndex := 1\<rparr>) w)
      else if isEnter key then
        (if confirmIndex (tui w) = 1 then
           (if confirmAction (tui w) = Some Save then Continue (executeFormSave uuid w)
            else if confirmAction (tui w) = Some Delete then Continue (executeFormDelete w)
            else Continue w)
         else returnToForm w)
      else Continue w)"


subsection \<open>Main menu and lists\<close>

text \<open>The assignments made on entering a list view (lines 1263 to 1270 and 1273 to
  1280; the same seven after \<^verbatim>\<open>Escape\<close> in a form, lines 1173 to 1180 and
  1182 to 1189), followed by the repaint with all records.\<close>

definition enterList :: "bool \<Rightarrow> world \<Rightarrow> world" where
  "enterList isCustomer w =
     drawn (DrawListView isCustomer)
       (called (CallGetAll (if isCustomer then Customers else Products))
          (w\<lparr>tui := (tui w)\<lparr>currentView := (if isCustomer then CustomerList else ProductList),
                selectedIndex := 0, searchFilter := [], isSearching := False,
                inputBuffer := [], editingId := JUndef, formData := emptyObj\<rparr>\<rparr>))"

text \<open>\<^verbatim>\<open>handleMainMenu\<close> (lines 1253 to 1291).\<close>

definition handleMainMenu :: "jsstring \<Rightarrow> world \<Rightarrow> outcome" where
  "handleMainMenu key w =
     (if key = keyUp then
        Continue (drawn DrawMainMenu
          (w\<lparr>tui := (tui w)\<lparr>selectedIndex := max 0 (selectedIndex (tui w) - 1)\<rparr>\<rparr>))
      else if key = keyDown then
        Continue (drawn DrawMainMenu
          (w\<lparr>tui := (tui w)\<lparr>selectedIndex := min 3 (selectedIndex (tui w) + 1)\<rparr>\<rparr>))
      else if isEnter key then
        (if selectedIndex (tui w) = 0 then Continue (enterList True w)
         else if selectedIndex (tui w) = 1 then Continue (enterList False w)
         else if selectedIndex (tui w) = 2 then Continue (showStats w)
         else if selectedIndex (tui w) = 3 then Exit
         else Continue w)
      else Continue w)"

text \<open>\<^verbatim>\<open>handleListView\<close> (lines 1293 to 1358). The records are fetched and
  filtered before the key is looked at. \<^verbatim>\<open>filteredRecords[selectedIndex]\<close>
  outside the list is \<^verbatim>\<open>undefined\<close>, whose \<^verbatim>\<open>id\<close> cannot be read.\<close>

definition handleListView :: "jsstring \<Rightarrow> world \<Rightarrow> outcome" where
  "handleListView key w0 =
     (let isCustomer = (currentView (tui w0) = CustomerList);
          records = (if isCustomer then customerGetAll (db w0) else productGetAll (db w0));
          w = called (CallGetAll (if isCustomer then Customers else Products)) w0;
          s = tui w
      in
      case filterRecords records (searchFilter s) isCustomer of
        Inl e \<Rightarrow> Crash e
      | Inr filteredRecords \<Rightarrow>
          if isSearching s then
            (if isEnter key then
               Continue (drawn (DrawListView isCustomer)
                 (w\<lparr>tui := s\<lparr>isSearching := False, searchFilter := inputBuffer s,
                       selectedIndex := 0, inputBuffer := []\<rparr>\<rparr>))
             else if isBackspace key then
               (if inputBuffer s \<noteq> [] then
                  Continue (drawn (DrawListView isCustomer)
                    (w\<lparr>tui := s\<lparr>inputBuffer := butlast (inputBuffer s),
                          searchFilter := butlast (inputBuffer s), selectedIndex := 0\<rparr>\<rparr>))
                else Continue w)
             else if isRegular key then
               Continue (drawn (DrawListView isCustomer)
                 (w\<lparr>tui := s\<lparr>inputBuffer := inputBuffer s @ key,
                       searchFilter := inputBuffer s @ key, selectedIndex := 0\<rparr>\<rparr>))
             else Continue w)
          else
            (if key = keyUp \<and> length filteredRecords > 0 then
               Continue (drawn (DrawListView isCustomer)
                 (w\<lparr>tui := s\<lparr>selectedIndex := max 0 (selectedIndex s - 1)\<rparr>\<rparr>))
             else if key = keyDown \<and> length filteredRecords > 0 then
               Continue (drawn (DrawListView isCustomer)
                 (w\<lparr>tui := s\<lparr>selectedIndex :=
                       min (int (length filteredRecords) - 1) (selectedIndex s + 1)\<rparr>\<rparr>))
             else if isEnter key then
               (if length filteredRecords > 0 then
                  (if 0 \<le> selectedIndex s \<and> selectedIndex s < int (length filteredRecords) then
                     let selectedRecord = filteredRecords ! nat (selectedIndex s);
                         steps = stepsOf isCustomer
                     in Continue (drawn (DrawForm (if isCustomer then EditCustomer else EditProduct) True)
                          (w\<lparr>tui := s\<lparr>editingId := selectedRecord ''id'',
                                formData := selectedRecord, formStep := 0,
                                currentView := (if isCustomer then CustomerForm else ProductForm),
                                inputBuffer := bufferOf selectedRecord (steps ! 0)\<rparr>\<rparr>))
                   else Crash TypeError)
                else Continue w)
             else if isRegular key then
               Continue (drawn (DrawListView isCustomer)
                 (w\<lparr>tui := s\<lparr>isSearching := True, inputBuffer := key, searchFilter := key,
                       selectedIndex := 0\<rparr>\<rparr>))
             else Continue w))"

subsection \<open>Key dispatch\<close>

text \<open>\<^verbatim>\<open>formData.CustomerName || 'Bu ...'\<close> inside the confirmation text (lines
  1113 to 1115 and 1130 to 1132).\<close>

definition recordName :: "tui_state \<Rightarrow> record_name" where
  "recordName s =
     (if currentView s = CustomerForm
      then (if truthy (formData s ''CustomerName'') then Named (toStr (formData s ''CustomerName''))
            else ThisCustomer)
      else (if truthy (formData s ''ProductCode'') then Named (toStr (formData s ''ProductCode''))
            else ThisProduct))"

text \<open>The new-record form opened by Ctrl+N (lines 1146 to 1160).\<close>

definition newForm :: "bool \<Rightarrow> world \<Rightarrow> world" where
  "newForm isCustomer w =
     drawn (DrawForm (if isCustomer then NewCustomer else NewProduct) False)
       (w\<lparr>tui := (tui w)\<lparr>currentView := (if isCustomer then CustomerForm else ProductForm),
             formData := emptyObj, formStep := 0, editingId := JUndef, inputBuffer := []\<rparr>\<rparr>)"

text \<open>The branch of the Escape key (lines 1166 to 1232).\<close>

definition handleEscape :: "world \<Rightarrow> outcome" where
  "handleEscape w =
     (let s = tui w in
      if currentView s = MainMenu then Exit
      else if endsWithForm (currentView s) then
        Continue (drawn (DrawListView (currentView s = CustomerForm))
          (called (CallGetAll (if currentView s = CustomerForm then Customers else Products))
             (w\<lparr>tui := s\<lparr>currentView :=
                     (if currentView s = CustomerForm then CustomerList else ProductList),
                   selectedIndex := 0, isSearching := False, searchFilter := [],
                   inputBuffer := [], editingId := JUndef, formData := emptyObj\<rparr>\<rparr>)))
      else if currentView s = ConfirmAction then
        (if previousView s = Some CustomerForm then
           (if formStep s < length customerFormSteps then
              Continue (drawn (DrawForm EditCustomer True)
                (w\<lparr>tui := s\<lparr>currentView := CustomerForm,
                      inputBuffer := bufferOf (formData s) (customerFormSteps ! formStep s)\<rparr>\<rparr>))
            else Crash TypeError)
         else if previousView s = Some ProductForm then
           (if formStep s < length productFormSteps then
              Continue (drawn (DrawForm EditProduct True)
                (w\<lparr>tui := s\<lparr>currentView := ProductForm,
                      inputBuffer := bufferOf (formData s) (productFormSteps ! formStep s)\<rparr>\<rparr>))
            else Crash TypeError)
         else Continue w)
      else if endsWithList (currentView s) then
        (if isSearching s then
           Continue (drawn (DrawListView (currentView s = CustomerList))
             (called (CallGetAll (if currentView s = CustomerList then Customers else Products))
                (w\<lparr>tui := s\<lparr>isSearching := False, inputBuffer := [], searchFilter := [],
                      selectedIndex := 0\<rparr>\<rparr>)))
         else
           Continue (drawn DrawMainMenu
             (w\<lparr>tui := s\<lparr>currentView := MainMenu, selectedIndex := 0, inputBuffer := [],
                   searchFilter := [], editingId := JUndef, formData := emptyObj\<rparr>\<rparr>)))
      else
        Continue (drawn DrawMainMenu (w\<lparr>tui := s\<lparr>currentView := MainMenu, selectedIndex := 0\<rparr>\<rparr>)))"

text \<open>\<^verbatim>\<open>handleKeyPress\<close> (lines 1100 to 1251): the global shortcuts in the order
  of the source, each falling through when its view test fails, then the handler of
  the current view. \<open>uuid\<close> is the value \<^verbatim>\<open>crypto.randomUUID()\<close> returns if
  the event creates a record.\<close>

definition handleKeyPress :: "jsstring \<Rightarrow> jsstring \<Rightarrow> world \<Rightarrow> outcome" where
  "handleKeyPress uuid key w =
     (let s = tui w in
      if key = keyCtrlC then Exit
      else if key = keyCtrlS \<and> endsWithForm (currentView s) then
        (let msg = ConfirmSave (recordName s) (truthy (editingId s)) in
         Continue (drawn (DrawConfirmation (Some msg) Save)
           (w\<lparr>tui := s\<lparr>previousView := Some (currentView s), currentView := ConfirmAction,
                 confirmAction := Some Save, confirmMessage := Some msg, confirmIndex := 1\<rparr>\<rparr>)))
      else if key = keyCtrlD \<and> endsWithForm (currentView s) \<and> truthy (editingId s) then
        (let msg = ConfirmDelete (recordName s) in
         Continue (drawn (DrawConfirmation (Some msg) Delete)
           (w\<lparr>tui := s\<lparr>previousView := Some (currentView s), currentView := ConfirmAction,
                 confirmAction := Some Delete, confirmMessage := Some msg, confirmIndex := 0\<rparr>\<rparr>)))
      else if key = keyCtrlN \<and> endsWithList (currentView s) then
        Continue (newForm (currentView s = CustomerList) w)
      else if key = keyEsc then handleEscape w
      else
        (case currentView s of
           MainMenu \<Rightarrow> handleMainMenu key w
         | CustomerList \<Rightarrow> handleListView key w
         | ProductList \<Rightarrow> handleListView key w
         | CustomerForm \<Rightarrow> handleFormView key w
         | ProductForm \<Rightarrow> handleFormView key w
         | ConfirmAction \<Rightarrow> handleConfirmation uuid key w))"

subsection \<open>Event sequences\<close>

text \<open>The process handles one event at a time: a key, with the identifier the host
  would generate during it, or the firing of a pending timer. After an exit or an
  uncaught exception nothing more is handled.\<close>

datatype event = KeyPress jsstring jsstring | TimerFires nat

fun handleEvent :: "event \<Rightarrow> world \<Rightarrow> outcome" where
  "handleEvent (KeyPress key uuid) w = handleKeyPress uuid key w"
| "handleEvent (TimerFires i) w = (case fireTimer i w of None \<Rightarrow> Continue w | Some w' \<Rightarrow> Continue w')"

fun handleEvents :: "event list \<Rightarrow> world \<Rightarrow> outcome" where
  "handleEvents [] w = Continue w"
| "handleEvents (e # es) w =
     (case handleEvent e w of Continue w' \<Rightarrow> handleEvents es w' | other \<Rightarrow> other)"

text \<open>The world at the start of the session (line 1564 paints the main menu).\<close>

definition initialWorld :: "store \<Rightarrow> world" where
  "initialWorld st =
     \<lparr>tui = initialState, db = st, timers = [], paints = [DrawMainMenu], calls = []\<rparr>"


section \<open>Notions used in the statements\<close>

text \<open>The fields that \<^verbatim>\<open>filterRecords\<close> looks at (lines 827 to 829 and 831 to
  833).\<close>

definition filterFields :: "bool \<Rightarrow> string list" where
  "filterFields isCustomer =
     (if isCustomer then [''CustomerName'', ''CustomerPhone'', ''CustomerTCKN'']
      else [''ProductCode'', ''Details'', ''Barcode''])"

text \<open>A value \<open>v\<close> for which \<^verbatim>\<open>(v || '')\<close> is a string (a string, or any falsy
  value), and that string. The text columns of the schema hold such values.\<close>

definition isText :: "jsval \<Rightarrow> bool" where
  "isText v = (case jsor v (JStr []) of JStr s \<Rightarrow> True | _ \<Rightarrow> False)"

definition textOf :: "jsval \<Rightarrow> jsstring" where
  "textOf v = (case jsor v (JStr []) of JStr s \<Rightarrow> s | _ \<Rightarrow> [])"

text \<open>
  The words of the specification, for text in Basic Latin: two units are the same
  letter when they are equal or the capital and the small form of one of the letters
  A to Z, and \<open>t\<close> is a case-insensitive substring of \<open>s\<close> when some contiguous
  run of \<open>s\<close> has the length of \<open>t\<close> and the same letters.
\<close>

definition isAscii :: "nat \<Rightarrow> bool" where
  "isAscii c = (c < 128)"

definition sameLetter :: "nat \<Rightarrow> nat \<Rightarrow> bool" where
  "sameLetter a b =
     (a = b \<or> (0x41 \<le> a \<and> a \<le> 0x5A \<and> b = a + 32) \<or> (0x41 \<le> b \<and> b \<le> 0x5A \<and> a = b + 32))"

fun startsWithIgnoringCase :: "jsstring \<Rightarrow> jsstring \<Rightarrow> bool" where
  "startsWithIgnoringCase s [] = True"
| "startsWithIgnoringCase [] (d # t) = False"
| "startsWithIgnoringCase (c # s) (d # t) = (sameLetter c d \<and> startsWithIgnoringCase s t)"

fun includesIgnoringCase :: "jsstring \<Rightarrow> jsstring \<Rightarrow> bool" where
  "includesIgnoringCase [] t = (t = [])"
| "includesIgnoringCase (c # s) t = (startsWithIgnoringCase (c # s) t \<or> includesIgnoringCase s t)"

text \<open>The records that a list view shows: those of the view's entity.\<close>

definition listRecords :: "world \<Rightarrow> jsobj list" where
  "listRecords w =
     (if currentView (tui w) = CustomerList then customerGetAll (db w) else productGetAll (db w))"

text \<open>The records matching the current filter, when filtering succeeds.\<close>

definition filteredOf :: "world \<Rightarrow> js_error + jsobj list" where
  "filteredOf w =
     filterRecords (listRecords w) (searchFilter (tui w)) (currentView (tui w) = CustomerList)"

text \<open>The cursor is within \<open>[0, max(0, filteredCount - 1)]\<close>.\<close>

definition selectionInRange :: "world \<Rightarrow> bool" where
  "selectionInRange w =
     (case filteredOf w of
        Inl e \<Rightarrow> False
      | Inr filtered \<Rightarrow>
          0 \<le> selectedIndex (tui w) \<and>
          selectedIndex (tui w) \<le> max 0 (int (length filtered) - 1))"

definition isUpDown :: "event \<Rightarrow> bool" where
  "isUpDown e = (case e of KeyPress key uuid \<Rightarrow> key = keyUp \<or> key = keyDown | TimerFires i \<Rightarrow> False)"


definition isKeyPress :: "event \<Rightarrow> bool" where
  "isKeyPress e = (case e of KeyPress key uuid \<Rightarrow> True | TimerFires i \<Rightarrow> False)"

text \<open>The keys that move between the fields of a form without typing.\<close>

definition isNavigation :: "event \<Rightarrow> bool" where
  "isNavigation e =
     (case e of
        KeyPress key uuid \<Rightarrow> key = keyUp \<or> key = keyDown \<or> key = keyTab \<or> isEnter key
      | TimerFires i \<Rightarrow> False)"

text \<open>
  A seed value that a commit of its own printed form gives back: on a text step a
  string; on a numeric step the empty string, or a non-zero number that
  \<^verbatim>\<open>parseFloat\<close> reads back from \<^verbatim>\<open>String\<close> of it (as the language
  promises of every finite number). Absent and null values, zero and \<open>NaN\<close> are
  not of this kind.
\<close>

definition isStable :: "form_step \<Rightarrow> jsval \<Rightarrow> bool" where
  "isStable st v =
     (case v of
        JStr t \<Rightarrow> \<not> numeric st \<or> t = []
      | JNum n \<Rightarrow> numeric st \<and> numTruthy n \<and> parseFloat (numToString n) = n
      | _ \<Rightarrow> False)"

definition stableSeed :: "form_step list \<Rightarrow> jsobj \<Rightarrow> bool" where
  "stableSeed steps seed = list_all (\<lambda>st. isStable st (seed (field st))) steps"

section \<open>Example data\<close>

text \<open>Two customers and a product, used to run the model on concrete input.\<close>

definition ada :: jsobj where
  "ada = emptyObj
     (''id'' := JStr (str ''c1''), ''CustomerName'' := JStr (str ''Ada Lovelace''),
      ''CustomerPhone'' := JNull, ''CustomerAddress'' := JNull,
      ''CustomerTCKN'' := JStr (str ''10000000146''), ''CustomerVD'' := JNull,
      ''CustomerDebt'' := JNum (Fin 0 0), ''CustomerBalance'' := JNum (Fin 125 (- 1)))"

definition bob :: jsobj where
  "bob = emptyObj
     (''id'' := JStr (str ''c2''), ''CustomerName'' := JStr (str ''Bob''),
      ''CustomerPhone'' := JStr (str ''5550199''), ''CustomerAddress'' := JStr (str ''Izmir''),
      ''CustomerTCKN'' := JStr (str ''20000000192''), ''CustomerVD'' := JStr (str ''Konak''),
      ''CustomerDebt'' := JNum (Fin 42 0), ''CustomerBalance'' := JNum (Fin 7 0))"

definition lamp :: jsobj where
  "lamp = emptyObj
     (''id'' := JStr (str ''p1''), ''ProductCode'' := JStr (str ''LAMP-1''), ''Details'' := JStr (str ''Desk lamp''),
      ''Barcode'' := JStr (str ''8690000000017''), ''Price'' := JNum (Fin 1995 (- 2)),
      ''Category'' := JStr (str ''Home''), ''ActualInventory'' := JNum (Fin 4 0),
      ''ReservedInventory'' := JNum (Fin 1 0), ''AwaitingInventory'' := JNum (Fin 12 0))"

text \<open>Customers of which only the name is filled in: \<open>Istanbul Ltd\<close> written
  with the capital I with a dot above (U+0130), \<open>Seker\<close> with the capital S with
  a cedilla (U+015E), and the Greek word for street in capitals (omicron, delta,
  omicron, sigma).\<close>

definition nameOnly :: "string \<Rightarrow> jsstring \<Rightarrow> jsobj" where
  "nameOnly i n = emptyObj(''id'' := JStr (str i), ''CustomerName'' := JStr n,
     ''CustomerPhone'' := JNull, ''CustomerTCKN'' := JNull)"

definition istanbul :: jsobj where
  "istanbul = nameOnly ''c3'' (0x130 # str ''stanbul Ltd'')"

definition seker :: jsobj where
  "seker = nameOnly ''c4'' (0x15E # str ''eker'')"

definition odos :: jsobj where
  "odos = nameOnly ''c5'' [0x39F, 0x394, 0x39F, 0x3A3]"

definition exampleStore :: store where
  "exampleStore = \<lparr>customers = [ada, bob], products = [lamp]\<rparr>"

text \<open>The example store after another client (the REST side) has deleted the second
  customer.\<close>

definition storeWithoutBob :: store where
  "storeWithoutBob = \<lparr>customers = [ada], products = [lamp]\<rparr>"

text \<open>\<open>n\<close> times Down, then \<open>n\<close> times Up: with \<open>n\<close> one less than the number
  of steps, forward through all the steps of a form and back to the first.\<close>

definition forwardThenBack :: "nat \<Rightarrow> event list" where
  "forwardThenBack n = replicate n (KeyPress keyDown []) @ replicate n (KeyPress keyUp [])"

text \<open>A list view over the example store with the cursor on row \<open>i\<close>.\<close>

definition listAt :: "view \<Rightarrow> int \<Rightarrow> world" where
  "listAt v i =
     \<lparr>tui = initialState\<lparr>currentView := v, selectedIndex := i\<rparr>, db = exampleStore,
      timers = [], paints = [], calls = []\<rparr>"

text \<open>The session in a list or a form over the example store, nothing painted yet.\<close>

definition exampleWorld :: "tui_state \<Rightarrow> world" where
  "exampleWorld s = \<lparr>tui = s, db = exampleStore, timers = [], paints = [], calls = []\<rparr>"


text \<open>What is left after a key event: the value of a form field, the view, what was
  painted; \<open>None\<close> when the process has ended.\<close>

definition fieldAfter :: "outcome \<Rightarrow> string \<Rightarrow> jsval option" where
  "fieldAfter oc f = (case oc of Continue w \<Rightarrow> Some (formData (tui w) f) | _ \<Rightarrow> None)"

definition viewAfter :: "outcome \<Rightarrow> view option" where
  "viewAfter oc = (case oc of Continue w \<Rightarrow> Some (currentView (tui w)) | _ \<Rightarrow> None)"

definition paintsAfter :: "outcome \<Rightarrow> paint list option" where
  "paintsAfter oc = (case oc of Continue w \<Rightarrow> Some (paints w) | _ \<Rightarrow> None)"

text \<open>A form of the given view on step \<open>i\<close> with the buffer \<open>buf\<close>, for a new
  record (nothing saved in the form data yet).\<close>

definition newFormAt :: "view \<Rightarrow> nat \<Rightarrow> jsstring \<Rightarrow> tui_state" where
  "newFormAt v i buf = initialState\<lparr>currentView := v, formStep := i, inputBuffer := buf\<rparr>"

text \<open>The confirmation of a save opened from that form.\<close>

definition confirmingSave :: "tui_state \<Rightarrow> tui_state" where
  "confirmingSave s =
     s\<lparr>previousView := Some (currentView s), currentView := ConfirmAction,
       confirmAction := Some Save, confirmIndex := 1\<rparr>"

text \<open>The form as Enter on the record \<open>r\<close> of a list opens it (lines 1334 to
  1346).\<close>

definition editingForm :: "view \<Rightarrow> jsobj \<Rightarrow> tui_state" where
  "editingForm v r =
     initialState\<lparr>currentView := v, editingId := r ''id'', formData := r, formStep := 0,
       inputBuffer := bufferOf r (stepsOf (v = CustomerForm) ! 0)\<rparr>"

text \<open>The confirmation of a delete opened from a form.\<close>

definition confirmingDelete :: "tui_state \<Rightarrow> tui_state" where
  "confirmingDelete s =
     s\<lparr>previousView := Some (currentView s), currentView := ConfirmAction,
       confirmAction := Some Delete, confirmIndex := 0\<rparr>"

text \<open>A session over any store.\<close>

definition worldOf :: "store \<Rightarrow> tui_state \<Rightarrow> world" where
  "worldOf st s = \<lparr>tui = s, db = st, timers = [], paints = [], calls = []\<rparr>"

text \<open>The store call that confirming a save, or a delete, makes from the state
  \<open>s\<close> (lines 1440 to 1456 and 1464 to 1469).\<close>

definition saveCall :: "tui_state \<Rightarrow> store_call" where
  "saveCall s =
     (if previousView s = Some CustomerForm
      then (if truthy (editingId s) then CallUpdate Customers (editingId s) else CallCreate Customers)
      else (if truthy (editingId s) then CallUpdate Products (editingId s) else CallCreate Products))"

definition deleteCall :: "tui_state \<Rightarrow> store_call" where
  "deleteCall s =
     CallDelete (if previousView s = Some CustomerForm then Customers else Products) (editingId s)"

text \<open>The session is in the confirmation of the action \<open>a\<close>, opened from the form
  \<open>v\<close> on one of its steps.\<close>

definition confirming :: "confirm_action \<Rightarrow> view \<Rightarrow> world \<Rightarrow> bool" where
  "confirming a v w =
     (currentView (tui w) = ConfirmAction \<and> confirmAction (tui w) = Some a \<and>
      previousView (tui w) = Some v \<and> endsWithForm v \<and>
      formStep (tui w) < length (stepsOf (v = CustomerForm)))"

text \<open>What Enter on yes runs (lines 1414 to 1418), and the store call it makes.\<close>

definition execute :: "confirm_action \<Rightarrow> jsstring \<Rightarrow> world \<Rightarrow> world" where
  "execute a uuid w = (case a of Save \<Rightarrow> executeFormSave uuid w | Delete \<Rightarrow> executeFormDelete w)"

definition pendingCall :: "confirm_action \<Rightarrow> tui_state \<Rightarrow> store_call" where
  "pendingCall a s = (case a of Save \<Rightarrow> saveCall s | Delete \<Rightarrow> deleteCall s)"

definition isEnterPress :: "event \<Rightarrow> bool" where
  "isEnterPress e = (case e of KeyPress key uuid \<Rightarrow> isEnter key | TimerFires i \<Rightarrow> False)"

definition isMessage :: "paint \<Rightarrow> bool" where
  "isMessage p = (case p of ShowMessage m e \<Rightarrow> True | _ \<Rightarrow> False)"

text \<open>The timers pending after a key event.\<close>

definition timersAfter :: "outcome \<Rightarrow> (nat \<times> timer_callback) list option" where
  "timersAfter oc = (case oc of Continue w \<Rightarrow> Some (timers w) | _ \<Rightarrow> None)"

section \<open>Evaluation and basic facts\<close>

lemma str_simps: "str [] = []" "str (c # cs) = of_char c # str cs"
  by (simp_all add: str_def)

lemma str_eq_iff [simp]: "str s = str t \<longleftrightarrow> s = t" "str s = [] \<longleftrightarrow> s = []" "[] = str s \<longleftrightarrow> s = []"
  by (auto simp: str_def inj_map_eq_map inj_def)

lemma natDigits_small: "n < 10 \<Longrightarrow> natDigits n = [digitChar n]"
  by (simp add: natDigits.simps)

lemma natDigits_big: "\<not> n < 10 \<Longrightarrow> natDigits n = natDigits (n div 10) @ [digitChar (n mod 10)]"
  by (subst natDigits.simps) simp

lemma stripZeros_stop: "m = 0 \<or> m mod 10 \<noteq> 0 \<Longrightarrow> stripZeros m e = (m, e)"
  by (subst stripZeros.simps) auto

lemma stripZeros_step:
  "m \<noteq> 0 \<Longrightarrow> m mod 10 = 0 \<Longrightarrow> stripZeros m e = stripZeros (m div 10) (e + 1)"
  by (subst stripZeros.simps) simp

lemmas js_eval = natDigits_small natDigits_big stripZeros_stop stripZeros_step
  parseFloat_def parseUnsigned_def parseExponent_def isSpace_def isDigit_def digitsVal_def
  digitVal_def digitChar_def mkFin_def layoutDigits_def expSuffix_def jsor_def emptyObj_def
  toLowerCase_def lowerUnit_def lowerOf_def str_simps

lemmas key_defs = keyCtrlC_def keyCtrlS_def keyCtrlD_def keyCtrlN_def keyEsc_def keyUp_def
  keyDown_def keyRight_def keyLeft_def keyTab_def isEnter_def isBackspace_def isRegular_def

lemmas example_defs = ada_def bob_def lamp_def exampleStore_def exampleWorld_def initialState_def

lemmas store_defs = customerGetAll_def productGetAll_def customerGetById_def productGetById_def
  parseLists_def idIs_def isNull_def customerColumns_def productColumns_def boundRow_def
  customerUpdate_def productUpdate_def customerCreate_def productCreate_def
  customerDelete_def productDelete_def

lemmas run_defs = handleKeyPress_def handleConfirmation_def handleEscape_def handleFormView_def
  handleListView_def handleMainMenu_def executeFormSave_def executeFormDelete_def returnToForm_def
  moveToNextField_def moveToPrevField_def saveCurrentField_def bufferOf_def formTitle_def
  redrawForm_def redrawConfirmation_def recordName_def newForm_def enterList_def
  showMessage_def showStats_def drawn_def called_def setTimeout_def
  endsWithForm_def endsWithList_def stepsOf_def customerFormSteps_def productFormSteps_def
  filterRecords_def Let_def

lemmas example_state_defs = worldOf_def exampleWorld_def editingForm_def newFormAt_def
  confirmingSave_def confirmingDelete_def storeWithoutBob_def exampleStore_def ada_def bob_def
  lamp_def initialState_def

lemma world_called [simp]:
  "tui (called c w) = tui w" "db (called c w) = db w" "timers (called c w) = timers w"
  "paints (called c w) = paints w" "calls (called c w) = calls w @ [c]"
  by (simp_all add: called_def)

lemma world_drawn [simp]:
  "tui (drawn p w) = tui w" "db (drawn p w) = db w" "timers (drawn p w) = timers w"
  "paints (drawn p w) = paints w @ [p]" "calls (drawn p w) = calls w"
  by (simp_all add: drawn_def)

lemma world_setTimeout [simp]:
  "tui (setTimeout cb ms w) = tui w" "db (setTimeout cb ms w) = db w"
  "timers (setTimeout cb ms w) = timers w @ [(ms, cb)]"
  "paints (setTimeout cb ms w) = paints w" "calls (setTimeout cb ms w) = calls w"
  by (simp_all add: setTimeout_def)

lemma world_showMessage [simp]:
  "tui (showMessage m b w) = tui w" "db (showMessage m b w) = db w"
  "timers (showMessage m b w) = timers w @ [(2000, MessageReturn)]"
  "paints (showMessage m b w) = paints w @ [ShowMessage m b]" "calls (showMessage m b w) = calls w"
  by (simp_all add: showMessage_def)

text \<open>A key that is none of the global shortcuts reaches the handler of the view.\<close>

lemma handleKeyPress_dispatch:
  assumes "key \<noteq> keyCtrlC" "key \<noteq> keyCtrlS" "key \<noteq> keyCtrlD" "key \<noteq> keyCtrlN" "key \<noteq> keyEsc"
  shows "handleKeyPress uuid key w =
           (case currentView (tui w) of
              MainMenu \<Rightarrow> handleMainMenu key w
            | CustomerList \<Rightarrow> handleListView key w
            | ProductList \<Rightarrow> handleListView key w
            | CustomerForm \<Rightarrow> handleFormView key w
            | ProductForm \<Rightarrow> handleFormView key w
            | ConfirmAction \<Rightarrow> handleConfirmation uuid key w)"
  using assms by (simp add: handleKeyPress_def Let_def)

section \<open>Filtering\<close>

lemma startsWith_iff: "startsWith s t \<longleftrightarrow> (\<exists>post. s = t @ post)"
  by (induction s t rule: startsWith.induct) auto

lemma includesStr_iff: "includesStr s t \<longleftrightarrow> (\<exists>pre post. s = pre @ t @ post)"
proof (induction s)
  case Nil
  then show ?case by simp
next
  case (Cons c s)
  show ?case
  proof
    assume "includesStr (c # s) t"
    then consider "startsWith (c # s) t" | "includesStr s t" by auto
    then show "\<exists>pre post. c # s = pre @ t @ post"
    proof cases
      case 1
      then obtain post where "c # s = t @ post" using startsWith_iff by blast
      then have "c # s = [] @ t @ post" by simp
      then show ?thesis by blast
    next
      case 2
      then obtain pre post where "s = pre @ t @ post" using Cons.IH by blast
      then have "c # s = (c # pre) @ t @ post" by simp
      then show ?thesis by blast
    qed
  next
    assume "\<exists>pre post. c # s = pre @ t @ post"
    then obtain pre post where eq: "c # s = pre @ t @ post" by blast
    show "includesStr (c # s) t"
    proof (cases pre)
      case Nil
      with eq have "startsWith (c # s) t" using startsWith_iff by auto
      then show ?thesis by simp
    next
      case (Cons p pre')
      with eq have "s = pre' @ t @ post" by simp
      then have "includesStr s t" using Cons.IH by blast
      then show ?thesis by simp
    qed
  qed
qed

lemma lowerOf_text: "isText v \<Longrightarrow> lowerOf v = Inr (toLowerCase (textOf v))"
  by (auto simp: isText_def lowerOf_def textOf_def split: jsval.splits)

lemma anyFieldIncludes_text:
  "\<forall>f\<in>set fs. isText (r f) \<Longrightarrow>
   anyFieldIncludes fs t r = Inr (\<exists>f\<in>set fs. includesStr (toLowerCase (textOf (r f))) t)"
  by (induction fs) (auto simp: lowerOf_text)

lemma filterThrowing_total:
  "\<forall>x\<in>set xs. p x = Inr (q x) \<Longrightarrow> filterThrowing p xs = Inr (filter q xs)"
  by (induction xs) auto

lemma lowerFrom_ascii:
  "list_all isAscii s \<Longrightarrow> lowerFrom before s = map lowerUnit s"
  by (induction s arbitrary: before) (auto simp: isAscii_def)

lemma toLowerCase_ascii: "list_all isAscii s \<Longrightarrow> toLowerCase s = map lowerUnit s"
  by (simp add: toLowerCase_def lowerFrom_ascii)

lemma lowerUnit_ascii: "isAscii c \<Longrightarrow> lowerUnit c = (if 0x41 \<le> c \<and> c \<le> 0x5A then c + 32 else c)"
  by (auto simp: lowerUnit_def isAscii_def)

lemma lowerUnit_sameLetter:
  "isAscii a \<Longrightarrow> isAscii b \<Longrightarrow> (lowerUnit a = lowerUnit b) = sameLetter a b"
  by (auto simp: lowerUnit_ascii sameLetter_def isAscii_def)

lemma startsWith_lower:
  "list_all isAscii s \<Longrightarrow> list_all isAscii t \<Longrightarrow>
   startsWith (map lowerUnit s) (map lowerUnit t) = startsWithIgnoringCase s t"
  by (induction s t rule: startsWithIgnoringCase.induct) (simp_all add: lowerUnit_sameLetter)

lemma includes_lower:
  "list_all isAscii s \<Longrightarrow> list_all isAscii t \<Longrightarrow>
   includesStr (map lowerUnit s) (map lowerUnit t) = includesIgnoringCase s t"
proof (induction s)
  case Nil
  then show ?case by simp
next
  case (Cons c s)
  have "startsWith (map lowerUnit (c # s)) (map lowerUnit t) = startsWithIgnoringCase (c # s) t"
    using Cons.prems by (rule startsWith_lower)
  then show ?case using Cons by simp
qed

lemma startsWithIgnoringCase_iff:
  "startsWithIgnoringCase s t \<longleftrightarrow> (\<exists>mid post. s = mid @ post \<and> list_all2 sameLetter mid t)"
proof (induction s t rule: startsWithIgnoringCase.induct)
  case (1 s)
  then show ?case by simp
next
  case (2 d t)
  then show ?case by simp
next
  case (3 c s d t)
  show ?case
  proof
    assume "startsWithIgnoringCase (c # s) (d # t)"
    then have cd: "sameLetter c d" and "startsWithIgnoringCase s t" by simp_all
    then obtain mid post where "s = mid @ post" "list_all2 sameLetter mid t" using 3 by blast
    then have "c # s = (c # mid) @ post \<and> list_all2 sameLetter (c # mid) (d # t)"
      using cd by simp
    then show "\<exists>mid post. c # s = mid @ post \<and> list_all2 sameLetter mid (d # t)" by blast
  next
    assume "\<exists>mid post. c # s = mid @ post \<and> list_all2 sameLetter mid (d # t)"
    then obtain mid post where m: "c # s = mid @ post" "list_all2 sameLetter mid (d # t)" by blast
    from m(2) obtain m' where mid: "mid = c # m'" "sameLetter c d" "list_all2 sameLetter m' t"
      using m(1) by (cases mid) auto
    with m(1) have "s = m' @ post" by simp
    then show "startsWithIgnoringCase (c # s) (d # t)" using mid 3 by auto
  qed
qed

lemma includesIgnoringCase_iff:
  "includesIgnoringCase s t \<longleftrightarrow>
     (\<exists>pre mid post. s = pre @ mid @ post \<and> list_all2 sameLetter mid t)"
proof (induction s)
  case Nil
  then show ?case by auto
next
  case (Cons c s)
  show ?case
  proof
    assume "includesIgnoringCase (c # s) t"
    then consider "startsWithIgnoringCase (c # s) t" | "includesIgnoringCase s t" by auto
    then show "\<exists>pre mid post. c # s = pre @ mid @ post \<and> list_all2 sameLetter mid t"
    proof cases
      case 1
      then obtain mid post where "c # s = mid @ post" "list_all2 sameLetter mid t"
        using startsWithIgnoringCase_iff by blast
      then have "c # s = [] @ mid @ post \<and> list_all2 sameLetter mid t" by simp
      then show ?thesis by blast
    next
      case 2
      then obtain pre mid post where "s = pre @ mid @ post" "list_all2 sameLetter mid t"
        using Cons.IH by blast
      then have "c # s = (c # pre) @ mid @ post \<and> list_all2 sameLetter mid t" by simp
      then show ?thesis by blast
    qed
  next
    assume "\<exists>pre mid post. c # s = pre @ mid @ post \<and> list_all2 sameLetter mid t"
    then obtain pre mid post where eq: "c # s = pre @ mid @ post" "list_all2 sameLetter mid t"
      by blast
    show "includesIgnoringCase (c # s) t"
    proof (cases pre)
      case Nil
      with eq have "startsWithIgnoringCase (c # s) t" using startsWithIgnoringCase_iff by auto
      then show ?thesis by simp
    next
      case (Cons p pre')
      with eq have "s = pre' @ mid @ post" by simp
      then have "includesIgnoringCase s t" using Cons.IH eq(2) by blast
      then show ?thesis by simp
    qed
  qed
qed


lemma anyFieldIncludes_ascii:
  assumes "\<forall>f\<in>set fs. isText (r f) \<and> list_all isAscii (textOf (r f))" "list_all isAscii t"
  shows "anyFieldIncludes fs (toLowerCase t) r =
           Inr (\<exists>f\<in>set fs. includesIgnoringCase (textOf (r f)) t)"
proof -
  have "anyFieldIncludes fs (toLowerCase t) r =
          Inr (\<exists>f\<in>set fs. includesStr (toLowerCase (textOf (r f))) (toLowerCase t))"
    using assms(1) by (simp add: anyFieldIncludes_text)
  moreover have "\<forall>f\<in>set fs. includesStr (toLowerCase (textOf (r f))) (toLowerCase t) =
          includesIgnoringCase (textOf (r f)) t"
    using assms by (simp add: toLowerCase_ascii includes_lower)
  ultimately show ?thesis by simp
qed

lemmas text_eval = filterFields_def textOf_def isText_def nameOnly_def istanbul_def seker_def
  odos_def example_defs js_eval isAscii_def covered_def isCased_def isCaseIgnorable_def
  sameLetter_def

text \<open>
  Claim C7 (as amended). \<^verbatim>\<open>filterRecords\<close> with the empty filter returns all
  records in their order. With a non-empty filter, on records whose three filter
  fields are text (a string or a falsy value, read as the empty string) within the
  ranges that the model of \<^verbatim>\<open>toLowerCase\<close> covers, it returns exactly the
  records, in their order, for which one of the entity's fields (customers:
  CustomerName, CustomerPhone, CustomerTCKN; products: ProductCode, Details, Barcode)
  put in lower case contains the filter text put in lower case as a contiguous run.
  For text in Basic Latin that is the case-insensitive substring match of the
  specification: a record is returned exactly when a contiguous run of one of the
  fields has the same letters as the filter text.
\<close>

theorem filterRecords_lower_case_match:
  "filterRecords records [] isCustomer = Inr records \<and>
   (searchTerm \<noteq> [] \<and> list_all covered searchTerm \<and>
      (\<forall>r\<in>set records. \<forall>f\<in>set (filterFields isCustomer).
         isText (r f) \<and> list_all covered (textOf (r f))) \<longrightarrow>
    filterRecords records searchTerm isCustomer =
      Inr (filter (\<lambda>r. \<exists>f\<in>set (filterFields isCustomer). \<exists>pre post.
                     toLowerCase (textOf (r f)) = pre @ toLowerCase searchTerm @ post) records)) \<and>
   (searchTerm \<noteq> [] \<and> list_all isAscii searchTerm \<and>
      (\<forall>r\<in>set records. \<forall>f\<in>set (filterFields isCustomer).
         isText (r f) \<and> list_all isAscii (textOf (r f))) \<longrightarrow>
    filterRecords records searchTerm isCustomer =
      Inr (filter (\<lambda>r. \<exists>f\<in>set (filterFields isCustomer). \<exists>pre mid post.
                     textOf (r f) = pre @ mid @ post \<and> list_all2 sameLetter mid searchTerm) records))"
proof (intro conjI impI)
  show "filterRecords records [] isCustomer = Inr records"
    by (simp add: filterRecords_def)
next
  assume h: "searchTerm \<noteq> [] \<and> list_all covered searchTerm \<and>
      (\<forall>r\<in>set records. \<forall>f\<in>set (filterFields isCustomer).
         isText (r f) \<and> list_all covered (textOf (r f)))"
  let ?fs = "filterFields isCustomer"
  let ?t = "toLowerCase searchTerm"
  have "\<forall>r\<in>set records. anyFieldIncludes ?fs ?t r =
          Inr (\<exists>f\<in>set ?fs. includesStr (toLowerCase (textOf (r f))) ?t)"
    using h anyFieldIncludes_text by blast
  then have "filterThrowing (anyFieldIncludes ?fs ?t) records =
          Inr (filter (\<lambda>r. \<exists>f\<in>set ?fs. includesStr (toLowerCase (textOf (r f))) ?t) records)"
    by (rule filterThrowing_total)
  moreover have "filterRecords records searchTerm isCustomer =
      filterThrowing (anyFieldIncludes ?fs ?t) records"
    using h by (simp add: filterRecords_def filterFields_def)
  ultimately show "filterRecords records searchTerm isCustomer =
      Inr (filter (\<lambda>r. \<exists>f\<in>set ?fs. \<exists>pre post.
                     toLowerCase (textOf (r f)) = pre @ ?t @ post) records)"
    by (simp add: includesStr_iff)
next
  assume h: "searchTerm \<noteq> [] \<and> list_all isAscii searchTerm \<and>
      (\<forall>r\<in>set records. \<forall>f\<in>set (filterFields isCustomer).
         isText (r f) \<and> list_all isAscii (textOf (r f)))"
  let ?fs = "filterFields isCustomer"
  let ?t = "toLowerCase searchTerm"
  have "\<forall>r\<in>set records. anyFieldIncludes ?fs ?t r =
          Inr (\<exists>f\<in>set ?fs. includesIgnoringCase (textOf (r f)) searchTerm)"
    using h anyFieldIncludes_ascii by blast
  then have "filterThrowing (anyFieldIncludes ?fs ?t) records =
          Inr (filter (\<lambda>r. \<exists>f\<in>set ?fs. includesIgnoringCase (textOf (r f)) searchTerm) records)"
    by (rule filterThrowing_total)
  moreover have "filterRecords records searchTerm isCustomer =
      filterThrowing (anyFieldIncludes ?fs ?t) records"
    using h by (simp add: filterRecords_def filterFields_def)
  ultimately show "filterRecords records searchTerm isCustomer =
      Inr (filter (\<lambda>r. \<exists>f\<in>set ?fs. \<exists>pre mid post.
                     textOf (r f) = pre @ mid @ post \<and> list_all2 sameLetter mid searchTerm) records)"
    by (simp add: includesIgnoringCase_iff)
qed


theorem filterRecords_lower_case_match_witness:
  "str ''aD'' \<noteq> [] \<and> list_all isAscii (str ''aD'') \<and>
   list_all (\<lambda>r. list_all (\<lambda>f. isText (r f) \<and> list_all isAscii (textOf (r f))) (filterFields True))
     [ada, bob] \<and>
   filterRecords [ada, bob] (str ''aD'') True = Inr [ada] \<and>
   list_all covered [0x15E, 0x45, 0x4B] \<and>
   list_all (\<lambda>r. list_all (\<lambda>f. isText (r f) \<and> list_all covered (textOf (r f))) (filterFields True))
     [ada, seker, bob] \<and>
   seker ''CustomerName'' = JStr (0x15E # str ''eker'') \<and>
   filterRecords [ada, seker, bob] [0x15E, 0x45, 0x4B] True = Inr [seker] \<and>
   filterRecords [ada, seker, bob] [] True = Inr [ada, seker, bob]"
proof -
  have a: "str ''aD'' \<noteq> []" "list_all isAscii (str ''aD'')"
    "\<forall>r\<in>set [ada, bob]. \<forall>f\<in>set (filterFields True).
       isText (r f) \<and> list_all isAscii (textOf (r f))"
    by (simp_all add: text_eval)
  have c: "[0x15E, 0x45, 0x4B] \<noteq> ([] :: jsstring)" "list_all covered [0x15E, 0x45, 0x4B]"
    "\<forall>r\<in>set [ada, seker, bob]. \<forall>f\<in>set (filterFields True).
       isText (r f) \<and> list_all covered (textOf (r f))"
    by (simp_all add: text_eval)
  have n: "seker ''CustomerName'' = JStr (0x15E # str ''eker'')"
    by (simp add: seker_def nameOnly_def)
  have f: "filter (\<lambda>r. \<exists>f\<in>set (filterFields True). \<exists>pre mid post.
      textOf (r f) = pre @ mid @ post \<and> list_all2 sameLetter mid (str ''aD'')) [ada, bob] = [ada]"
    unfolding includesIgnoringCase_iff [symmetric]
    by (simp add: text_eval)
  have g: "filter (\<lambda>r. \<exists>f\<in>set (filterFields True). \<exists>pre post.
      toLowerCase (textOf (r f)) = pre @ toLowerCase [0x15E, 0x45, 0x4B] @ post) [ada, seker, bob]
        = [seker]"
    unfolding includesStr_iff [symmetric]
    by (simp add: text_eval)
  show ?thesis
    using filterRecords_lower_case_match [of "[ada, bob]" True "str ''aD''"]
      filterRecords_lower_case_match [of "[ada, seker, bob]" True "[0x15E, 0x45, 0x4B]"] a c f g n
    by (simp add: list_all_iff)
qed

text \<open>
  Outside Basic Latin the match is not case-insensitive. The lower case of the capital
  I with a dot above is two units, so the filter \<open>istanbul\<close> does not find the
  customer \<open>Istanbul Ltd\<close> written with that capital. The lower case of a capital
  sigma depends on its neighbours, so the filter made of a capital sigma alone does
  not find a name that ends with the same capital sigma.
\<close>

theorem filterRecords_case_counterexample:
  "istanbul ''CustomerName'' = JStr (0x130 # str ''stanbul Ltd'') \<and>
   toLowerCase (0x130 # str ''stanbul Ltd'') = 0x69 # 0x307 # str ''stanbul ltd'' \<and>
   toLowerCase (str ''istanbul'') = str ''istanbul'' \<and>
   filterRecords [istanbul] (str ''istanbul'') True = Inr [] \<and>
   odos ''CustomerName'' = JStr [0x39F, 0x394, 0x39F, 0x3A3] \<and>
   includesStr [0x39F, 0x394, 0x39F, 0x3A3] [0x3A3] \<and>
   toLowerCase [0x39F, 0x394, 0x39F, 0x3A3] = [0x3BF, 0x3B4, 0x3BF, 0x3C2] \<and>
   toLowerCase [0x3A3] = [0x3C3] \<and>
   filterRecords [odos] [0x3A3] True = Inr []"
proof -
  have 1: "istanbul ''CustomerName'' = JStr (0x130 # str ''stanbul Ltd'')"
    "odos ''CustomerName'' = JStr [0x39F, 0x394, 0x39F, 0x3A3]"
    by (simp_all add: istanbul_def odos_def nameOnly_def)
  have 2: "toLowerCase (0x130 # str ''stanbul Ltd'') = 0x69 # 0x307 # str ''stanbul ltd''"
    "toLowerCase (str ''istanbul'') = str ''istanbul''"
    "toLowerCase [0x39F, 0x394, 0x39F, 0x3A3] = [0x3BF, 0x3B4, 0x3BF, 0x3C2]"
    "toLowerCase [0x3A3] = [0x3C3]"
    by (simp_all add: text_eval)
  have 3: "includesStr [0x39F, 0x394, 0x39F, 0x3A3] [0x3A3]"
    by simp
  have 4: "filterRecords [istanbul] (str ''istanbul'') True = Inr []"
    by (simp add: filterRecords_def text_eval)
  have 5: "filterRecords [odos] [0x3A3] True = Inr []"
    by (simp add: filterRecords_def text_eval)
  show ?thesis using 1 2 3 4 5 by simp
qed

section \<open>List navigation\<close>

lemma handleKeyPress_list:
  assumes "endsWithList (currentView (tui w))" "key = keyUp \<or> key = keyDown"
  shows "handleKeyPress uuid key w = handleListView key w"
proof -
  have k: "key \<noteq> keyCtrlC" "key \<noteq> keyCtrlS" "key \<noteq> keyCtrlD" "key \<noteq> keyCtrlN" "key \<noteq> keyEsc"
    using assms(2) by (auto simp: key_defs)
  from assms(1) consider "currentView (tui w) = CustomerList" | "currentView (tui w) = ProductList"
    by (auto simp: endsWithList_def)
  then show ?thesis
    by cases (simp_all add: handleKeyPress_dispatch [OF k])
qed

lemma handleListView_up:
  "filteredOf w = Inr fr \<Longrightarrow>
   handleListView keyUp w =
     Continue (if \<not> isSearching (tui w) \<and> fr \<noteq> []
        then drawn (DrawListView (currentView (tui w) = CustomerList))
               ((called (CallGetAll (if currentView (tui w) = CustomerList then Customers else Products)) w)
                  \<lparr>tui := (tui w)\<lparr>selectedIndex := max 0 (selectedIndex (tui w) - 1)\<rparr>\<rparr>)
        else called (CallGetAll (if currentView (tui w) = CustomerList then Customers else Products)) w)"
  by (simp add: handleListView_def filteredOf_def listRecords_def Let_def key_defs)

lemma handleListView_down:
  "filteredOf w = Inr fr \<Longrightarrow>
   handleListView keyDown w =
     Continue (if \<not> isSearching (tui w) \<and> fr \<noteq> []
        then drawn (DrawListView (currentView (tui w) = CustomerList))
               ((called (CallGetAll (if currentView (tui w) = CustomerList then Customers else Products)) w)
                  \<lparr>tui := (tui w)\<lparr>selectedIndex :=
                        min (int (length fr) - 1) (selectedIndex (tui w) + 1)\<rparr>\<rparr>)
        else called (CallGetAll (if currentView (tui w) = CustomerList then Customers else Products)) w)"
  by (simp add: handleListView_def filteredOf_def listRecords_def Let_def key_defs)

lemma filteredOf_cong:
  "currentView (tui w') = currentView (tui w) \<Longrightarrow> db w' = db w \<Longrightarrow>
   searchFilter (tui w') = searchFilter (tui w) \<Longrightarrow> filteredOf w' = filteredOf w"
  by (simp add: filteredOf_def listRecords_def)

text \<open>One Up or Down key in a list view whose cursor is in range.\<close>

lemma updown_step:
  assumes "endsWithList (currentView (tui w))" "selectionInRange w" "key = keyUp \<or> key = keyDown"
  shows "\<exists>w'. handleKeyPress uuid key w = Continue w' \<and>
           currentView (tui w') = currentView (tui w) \<and> db w' = db w \<and>
           searchFilter (tui w') = searchFilter (tui w) \<and> timers w' = timers w \<and>
           selectionInRange w' \<and>
           (filteredOf w = Inr [] \<longrightarrow> tui w' = tui w \<and> paints w' = paints w)"
proof -
  from assms(2) obtain fr where fr: "filteredOf w = Inr fr"
    and rng: "0 \<le> selectedIndex (tui w)" "selectedIndex (tui w) \<le> max 0 (int (length fr) - 1)"
    by (auto simp: selectionInRange_def split: sum.splits)
  let ?c = "CallGetAll (if currentView (tui w) = CustomerList then Customers else Products)"
  let ?p = "DrawListView (currentView (tui w) = CustomerList)"
  have keep: "\<And>w'::world. currentView (tui w') = currentView (tui w) \<Longrightarrow> db w' = db w \<Longrightarrow>
      searchFilter (tui w') = searchFilter (tui w) \<Longrightarrow>
      0 \<le> selectedIndex (tui w') \<Longrightarrow> selectedIndex (tui w') \<le> max 0 (int (length fr) - 1) \<Longrightarrow>
      selectionInRange w'"
  proof -
    fix w' :: world assume a: "currentView (tui w') = currentView (tui w)" "db w' = db w"
      "searchFilter (tui w') = searchFilter (tui w)"
      "0 \<le> selectedIndex (tui w')" "selectedIndex (tui w') \<le> max 0 (int (length fr) - 1)"
    have "filteredOf w' = Inr fr" using filteredOf_cong [OF a(1,2,3)] fr by simp
    then show "selectionInRange w'" using a(4,5) by (simp add: selectionInRange_def)
  qed
  show ?thesis
  proof (cases "\<not> isSearching (tui w) \<and> fr \<noteq> []")
    case False
    then have "handleKeyPress uuid key w = Continue (called ?c w)"
      using assms(1,3) fr by (auto simp: handleKeyPress_list handleListView_up handleListView_down)
    moreover have "selectionInRange (called ?c w)"
      using rng by (intro keep) simp_all
    ultimately show ?thesis by simp
  next
    case True
    from assms(3) show ?thesis
    proof
      assume "key = keyUp"
      let ?w' = "drawn ?p ((called ?c w)
        \<lparr>tui := (tui w)\<lparr>selectedIndex := max 0 (selectedIndex (tui w) - 1)\<rparr>\<rparr>)"
      have "handleKeyPress uuid key w = Continue ?w'"
        using assms(1) fr True \<open>key = keyUp\<close> by (simp add: handleKeyPress_list handleListView_up)
      moreover have "selectionInRange ?w'"
        using rng by (intro keep) simp_all
      ultimately show ?thesis using fr True by simp
    next
      assume "key = keyDown"
      let ?w' = "drawn ?p ((called ?c w)
        \<lparr>tui := (tui w)\<lparr>selectedIndex := min (int (length fr) - 1) (selectedIndex (tui w) + 1)\<rparr>\<rparr>)"
      have "handleKeyPress uuid key w = Continue ?w'"
        using assms(1) fr True \<open>key = keyDown\<close> by (simp add: handleKeyPress_list handleListView_down)
      moreover have "selectionInRange ?w'"
        using rng True by (intro keep) simp_all
      ultimately show ?thesis using fr True by simp
    qed
  qed
qed

text \<open>
  Claim C1. Take a list view (customer-list or product-list) whose cursor is within
  \<open>[0, max(0, filteredCount - 1)]\<close>, \<open>filteredCount\<close> being the number of records of
  the store that match the current search filter, and any sequence of Up and Down key
  events. After each event of the sequence the session is still running in the list
  view and the cursor is within that range. When no record matches, the whole
  sequence leaves the session state as it was and nothing is repainted.
\<close>

theorem list_selection_in_range:
  assumes "endsWithList (currentView (tui w))" "selectionInRange w" "\<forall>e\<in>set es. isUpDown e"
  shows "\<forall>n\<le>length es. \<exists>w'. handleEvents (take n es) w = Continue w' \<and>
           endsWithList (currentView (tui w')) \<and> selectionInRange w' \<and>
           (filteredOf w = Inr [] \<longrightarrow> tui w' = tui w \<and> paints w' = paints w)"
proof -
  have run: "\<exists>w'. handleEvents ks w = Continue w' \<and>
           currentView (tui w') = currentView (tui w) \<and> db w' = db w \<and>
           searchFilter (tui w') = searchFilter (tui w) \<and> selectionInRange w' \<and>
           (filteredOf w = Inr [] \<longrightarrow> tui w' = tui w \<and> paints w' = paints w)"
    if "endsWithList (currentView (tui w))" "selectionInRange w" "\<forall>e\<in>set ks. isUpDown e"
    for ks w
    using that
  proof (induction ks arbitrary: w)
    case Nil
    then show ?case by simp
  next
    case (Cons e ks)
    from Cons.prems(3) obtain key uuid where e: "e = KeyPress key uuid" "key = keyUp \<or> key = keyDown"
      by (cases e) (auto simp: isUpDown_def)
    from updown_step [OF Cons.prems(1,2) e(2), of uuid] obtain w1 where
      w1: "handleKeyPress uuid key w = Continue w1"
        "currentView (tui w1) = currentView (tui w)" "db w1 = db w"
        "searchFilter (tui w1) = searchFilter (tui w)" "selectionInRange w1"
        "filteredOf w = Inr [] \<longrightarrow> tui w1 = tui w \<and> paints w1 = paints w"
      by blast
    have f1: "filteredOf w1 = filteredOf w" using w1(2,3,4) by (rule filteredOf_cong)
    from Cons.IH [of w1] w1 Cons.prems obtain w' where
      w': "handleEvents ks w1 = Continue w'"
        "currentView (tui w') = currentView (tui w1)" "db w' = db w1"
        "searchFilter (tui w') = searchFilter (tui w1)" "selectionInRange w'"
        "filteredOf w1 = Inr [] \<longrightarrow> tui w' = tui w1 \<and> paints w' = paints w1"
      by auto
    show ?case using e w1 w' f1 by simp
  qed
  show ?thesis
  proof (intro allI impI)
    fix n assume "n \<le> length es"
    have "\<forall>e\<in>set (take n es). isUpDown e" using assms(3) by (meson in_set_takeD)
    from run [OF assms(1,2) this] show "\<exists>w'. handleEvents (take n es) w = Continue w' \<and>
           endsWithList (currentView (tui w')) \<and> selectionInRange w' \<and>
           (filteredOf w = Inr [] \<longrightarrow> tui w' = tui w \<and> paints w' = paints w)"
      using assms(1) by auto
  qed
qed

theorem list_selection_in_range_witness:
  "endsWithList (currentView (tui (exampleWorld (initialState\<lparr>currentView := CustomerList\<rparr>)))) \<and>
   selectionInRange (exampleWorld (initialState\<lparr>currentView := CustomerList\<rparr>)) \<and>
   list_all isUpDown [KeyPress keyDown [], KeyPress keyDown [], KeyPress keyUp []] \<and>
   (\<exists>w'. handleEvents [KeyPress keyDown [], KeyPress keyDown [], KeyPress keyUp []]
            (exampleWorld (initialState\<lparr>currentView := CustomerList\<rparr>)) = Continue w' \<and>
         endsWithList (currentView (tui w')) \<and> selectionInRange w')"
proof -
  let ?w = "exampleWorld (initialState\<lparr>currentView := CustomerList\<rparr>)"
  let ?es = "[KeyPress keyDown [], KeyPress keyDown [], KeyPress keyUp []]"
  have 1: "endsWithList (currentView (tui ?w))"
    by (simp add: endsWithList_def example_defs)
  have 2: "selectionInRange ?w"
    by (simp add: selectionInRange_def filteredOf_def listRecords_def filterRecords_def
        example_defs store_defs)
  have 3: "\<forall>e\<in>set ?es. isUpDown e"
    by (simp add: isUpDown_def)
  from list_selection_in_range [OF 1 2 3]
  have "\<exists>w'. handleEvents (take 3 ?es) ?w = Continue w' \<and>
           endsWithList (currentView (tui w')) \<and> selectionInRange w'"
    by fastforce
  with 1 2 3 show ?thesis by (simp add: isUpDown_def)
qed


section \<open>Committing a form field\<close>

lemma tui_executeFormSave:
  "tui (executeFormSave uuid w) =
     (if formStep (tui w) < length (stepsOf (previousView (tui w) = Some CustomerForm))
      then saveCurrentField (stepsOf (previousView (tui w) = Some CustomerForm) ! formStep (tui w)) (tui w)
      else tui w)"
  by (simp add: executeFormSave_def Let_def split: sum.splits prod.splits)

lemma formData_saveCurrentField:
  "formData (saveCurrentField st s) (field st) =
     (if numeric st \<and> inputBuffer s \<noteq> []
      then JNum (if numTruthy (parseFloat (inputBuffer s)) then parseFloat (inputBuffer s) else Fin 0 0)
      else JStr (inputBuffer s))"
  by (simp add: saveCurrentField_def)

lemma saveCurrentField_fields [simp]:
  "currentView (saveCurrentField st s) = currentView s"
  "formStep (saveCurrentField st s) = formStep s"
  "inputBuffer (saveCurrentField st s) = inputBuffer s"
  "editingId (saveCurrentField st s) = editingId s"
  "previousView (saveCurrentField st s) = previousView s"
  "selectedIndex (saveCurrentField st s) = selectedIndex s"
  "searchFilter (saveCurrentField st s) = searchFilter s"
  "isSearching (saveCurrentField st s) = isSearching s"
  "confirmIndex (saveCurrentField st s) = confirmIndex s"
  "confirmAction (saveCurrentField st s) = confirmAction s"
  "confirmMessage (saveCurrentField st s) = confirmMessage s"
  by (simp_all add: saveCurrentField_def)

lemma moveToNextField_Inr:
  "formStep s < length (stepsOf (currentView s = CustomerForm)) \<Longrightarrow>
   \<exists>s'. moveToNextField s = Inr s' \<and>
     formData s' = formData (saveCurrentField (stepsOf (currentView s = CustomerForm) ! formStep s) s) \<and>
     currentView s' = currentView s"
  by (simp add: moveToNextField_def Let_def)

lemma moveToPrevField_Inr:
  "formStep s < length (stepsOf (currentView s = CustomerForm)) \<Longrightarrow>
   \<exists>s'. moveToPrevField s = Inr s' \<and>
     formData s' = formData (saveCurrentField (stepsOf (currentView s = CustomerForm) ! formStep s) s) \<and>
     currentView s' = currentView s"
  by (simp add: moveToPrevField_def Let_def)

text \<open>
  Claim C3 (as amended). On a numeric step of either form, committing the field (by
  \<^verbatim>\<open>moveToNextField\<close>, by \<^verbatim>\<open>moveToPrevField\<close> or by
  \<^verbatim>\<open>executeFormSave\<close>) stores, for a non-empty buffer, the number
  \<^verbatim>\<open>parseFloat(inputBuffer) || 0\<close>: the buffer 42 commits the number 42 and the
  non-numeric buffer abc commits the number 0. For the empty buffer it stores the empty
  string, not 0.
\<close>

theorem numeric_commit:
  assumes "endsWithForm (currentView s)"
    and "formStep s < length (stepsOf (currentView s = CustomerForm))"
    and "numeric (stepsOf (currentView s = CustomerForm) ! formStep s)"
    and "tui w = confirmingSave s"
    and "v = (if inputBuffer s = [] then JStr []
              else JNum (if numTruthy (parseFloat (inputBuffer s)) then parseFloat (inputBuffer s)
                         else Fin 0 0))"
  shows "(\<exists>s'. moveToNextField s = Inr s' \<and>
            formData s' (field (stepsOf (currentView s = CustomerForm) ! formStep s)) = v) \<and>
         (\<exists>s'. moveToPrevField s = Inr s' \<and>
            formData s' (field (stepsOf (currentView s = CustomerForm) ! formStep s)) = v) \<and>
         formData (tui (executeFormSave uuid w))
            (field (stepsOf (currentView s = CustomerForm) ! formStep s)) = v \<and>
         (inputBuffer s = str ''42'' \<longrightarrow> v = JNum (Fin 42 0)) \<and>
         (inputBuffer s = str ''abc'' \<longrightarrow> v = JNum (Fin 0 0)) \<and>
         (inputBuffer s = [] \<longrightarrow> v = JStr [])"
proof -
  let ?st = "stepsOf (currentView s = CustomerForm) ! formStep s"
  have c: "formData (saveCurrentField ?st s) (field ?st) = v"
    using assms(3,5) by (simp add: formData_saveCurrentField)
  have n: "\<exists>s'. moveToNextField s = Inr s' \<and> formData s' (field ?st) = v"
    using moveToNextField_Inr [of s] assms(2) c by auto
  have p: "\<exists>s'. moveToPrevField s = Inr s' \<and> formData s' (field ?st) = v"
    using moveToPrevField_Inr [of s] assms(2) c by auto
  have e: "formData (tui (executeFormSave uuid w)) (field ?st) = v"
    using assms(2,3,4,5) by (simp add: tui_executeFormSave confirmingSave_def saveCurrentField_def)
  have "parseFloat (str ''42'') = Fin 42 0" by (simp add: js_eval)
  moreover have "parseFloat (str ''abc'') = NaN" by (simp add: js_eval)
  ultimately show ?thesis using n p e assms(5) by simp
qed

theorem numeric_commit_witness:
  "(\<exists>s'. moveToNextField (newFormAt CustomerForm 5 (str ''42'')) = Inr s' \<and>
         formData s' ''CustomerDebt'' = JNum (Fin 42 0)) \<and>
   (\<exists>s'. moveToPrevField (newFormAt ProductForm 3 (str ''abc'')) = Inr s' \<and>
         formData s' ''Price'' = JNum (Fin 0 0)) \<and>
   formData (tui (executeFormSave [] (exampleWorld (confirmingSave (newFormAt ProductForm 3 (str ''19.90''))))))
     ''Price'' = JNum (Fin 199 (- 1))"
proof -
  have a: "endsWithForm (currentView (newFormAt CustomerForm 5 b))"
    "formStep (newFormAt CustomerForm 5 b) < length (stepsOf (currentView (newFormAt CustomerForm 5 b) = CustomerForm))"
    "numeric (stepsOf (currentView (newFormAt CustomerForm 5 b) = CustomerForm) ! formStep (newFormAt CustomerForm 5 b))"
    "field (stepsOf (currentView (newFormAt CustomerForm 5 b) = CustomerForm) ! formStep (newFormAt CustomerForm 5 b)) = ''CustomerDebt''"
    "inputBuffer (newFormAt CustomerForm 5 b) = b"
    for b
    by (simp_all add: newFormAt_def endsWithForm_def stepsOf_def customerFormSteps_def initialState_def)
  have b: "endsWithForm (currentView (newFormAt ProductForm 3 b))"
    "formStep (newFormAt ProductForm 3 b) < length (stepsOf (currentView (newFormAt ProductForm 3 b) = CustomerForm))"
    "numeric (stepsOf (currentView (newFormAt ProductForm 3 b) = CustomerForm) ! formStep (newFormAt ProductForm 3 b))"
    "field (stepsOf (currentView (newFormAt ProductForm 3 b) = CustomerForm) ! formStep (newFormAt ProductForm 3 b)) = ''Price''"
    "inputBuffer (newFormAt ProductForm 3 b) = b"
    for b
    by (simp_all add: newFormAt_def endsWithForm_def stepsOf_def productFormSteps_def initialState_def)
  have p: "parseFloat (str ''19.90'') = Fin 199 (- 1)" "parseFloat (str ''42'') = Fin 42 0"
    "parseFloat (str ''abc'') = NaN"
    by (simp_all add: js_eval)
  have t: "tui (exampleWorld (confirmingSave s)) = confirmingSave s" for s
    by (simp add: exampleWorld_def)
  show ?thesis
    using numeric_commit [OF a(1,2,3) t refl, of "str ''42''" "[]"]
      numeric_commit [OF b(1,2,3) t refl, of "str ''abc''" "[]"]
      numeric_commit [OF b(1,2,3) t refl, of "str ''19.90''" "[]"]
    by (simp add: a b p)
qed

theorem numeric_commit_empty_counterexample:
  "fieldAfter (handleKeyPress [] keyDown (exampleWorld (newFormAt CustomerForm 5 []))) ''CustomerDebt''
     = Some (JStr []) \<and>
   formData (tui (executeFormSave [] (exampleWorld (confirmingSave (newFormAt CustomerForm 5 [])))))
     ''CustomerDebt'' = JStr [] \<and>
   JStr [] \<noteq> JNum (Fin 0 0)"
  by (simp add: fieldAfter_def handleKeyPress_def handleFormView_def moveToNextField_def
      tui_executeFormSave saveCurrentField_def redrawForm_def
      newFormAt_def confirmingSave_def exampleWorld_def initialState_def key_defs Let_def
      stepsOf_def customerFormSteps_def endsWithForm_def endsWithList_def)



section \<open>Opening and answering the confirmation\<close>

lemma world_exampleWorld [simp]:
  "tui (exampleWorld s) = s" "db (exampleWorld s) = exampleStore" "timers (exampleWorld s) = []"
  "paints (exampleWorld s) = []" "calls (exampleWorld s) = []"
  by (simp_all add: exampleWorld_def)

lemma newFormAt_fields [simp]:
  "currentView (newFormAt v i buf) = v" "formStep (newFormAt v i buf) = i"
  "inputBuffer (newFormAt v i buf) = buf" "formData (newFormAt v i buf) = emptyObj"
  "editingId (newFormAt v i buf) = JUndef"
  by (simp_all add: newFormAt_def initialState_def)

lemma handleKeyPress_ctrlS:
  "endsWithForm (currentView (tui w)) \<Longrightarrow>
   handleKeyPress uuid keyCtrlS w =
     Continue (drawn (DrawConfirmation
                 (Some (ConfirmSave (recordName (tui w)) (truthy (editingId (tui w))))) Save)
       (w\<lparr>tui := (tui w)\<lparr>previousView := Some (currentView (tui w)), currentView := ConfirmAction,
             confirmAction := Some Save,
             confirmMessage := Some (ConfirmSave (recordName (tui w)) (truthy (editingId (tui w)))),
             confirmIndex := 1\<rparr>\<rparr>))"
  by (simp add: handleKeyPress_def key_defs Let_def)

lemma handleKeyPress_ctrlD:
  "endsWithForm (currentView (tui w)) \<Longrightarrow> truthy (editingId (tui w)) \<Longrightarrow>
   handleKeyPress uuid keyCtrlD w =
     Continue (drawn (DrawConfirmation (Some (ConfirmDelete (recordName (tui w)))) Delete)
       (w\<lparr>tui := (tui w)\<lparr>previousView := Some (currentView (tui w)), currentView := ConfirmAction,
             confirmAction := Some Delete,
             confirmMessage := Some (ConfirmDelete (recordName (tui w))),
             confirmIndex := 0\<rparr>\<rparr>))"
  by (simp add: handleKeyPress_def key_defs Let_def)

lemma handleKeyPress_confirm:
  "currentView (tui w) = ConfirmAction \<Longrightarrow> key \<noteq> keyCtrlC \<Longrightarrow> key \<noteq> keyEsc \<Longrightarrow>
   handleKeyPress uuid key w = handleConfirmation uuid key w"
  by (simp add: handleKeyPress_def Let_def endsWithForm_def endsWithList_def)

lemma isEnter_not_special:
  "isEnter key \<Longrightarrow> key \<noteq> keyCtrlC \<and> key \<noteq> keyCtrlS \<and> key \<noteq> keyCtrlD \<and> key \<noteq> keyCtrlN \<and>
     key \<noteq> keyEsc \<and> key \<noteq> keyLeft \<and> key \<noteq> keyRight \<and> key \<noteq> keyUp \<and> key \<noteq> keyDown"
  by (auto simp: key_defs)

lemma handleConfirmation_enter:
  "isEnter key \<Longrightarrow>
   handleConfirmation uuid key w =
     (if confirmIndex (tui w) = 1 then
        (if confirmAction (tui w) = Some Save then Continue (executeFormSave uuid w)
         else if confirmAction (tui w) = Some Delete then Continue (executeFormDelete w)
         else Continue w)
      else returnToForm w)"
  using isEnter_not_special [of key] by (simp add: handleConfirmation_def)

lemma confirm_enter:
  "currentView (tui w) = ConfirmAction \<Longrightarrow> isEnter key \<Longrightarrow>
   handleKeyPress uuid key w =
     (if confirmIndex (tui w) = 1 then
        (if confirmAction (tui w) = Some Save then Continue (executeFormSave uuid w)
         else if confirmAction (tui w) = Some Delete then Continue (executeFormDelete w)
         else Continue w)
      else returnToForm w)"
  using isEnter_not_special [of key] by (simp add: handleKeyPress_confirm handleConfirmation_enter)

lemma formData_saveCurrentField_cong:
  "formData s' = formData s \<Longrightarrow> inputBuffer s' = inputBuffer s \<Longrightarrow>
   formData (saveCurrentField st s') = formData (saveCurrentField st s)"
  by (simp add: saveCurrentField_def)

text \<open>
  Claim C2 (as amended). Ctrl+S in a customer or product form opens the confirmation
  of a save with the choice on yes (\<open>confirmIndex = 1\<close>) and remembers the form as
  the previous view. It does not touch the form data, the buffer or the store: the
  buffer of the current field is committed into the form data only when the save is
  confirmed with Enter.
\<close>

theorem ctrlS_confirms_before_commit:
  assumes "endsWithForm (currentView (tui w))"
  shows "\<exists>w'. handleKeyPress uuid keyCtrlS w = Continue w' \<and>
           currentView (tui w') = ConfirmAction \<and> confirmAction (tui w') = Some Save \<and>
           confirmIndex (tui w') = 1 \<and> previousView (tui w') = Some (currentView (tui w)) \<and>
           formData (tui w') = formData (tui w) \<and> inputBuffer (tui w') = inputBuffer (tui w) \<and>
           formStep (tui w') = formStep (tui w) \<and> db w' = db w \<and> calls w' = calls w \<and>
           (formStep (tui w) < length (stepsOf (currentView (tui w) = CustomerForm)) \<longrightarrow>
            (\<forall>key u. isEnter key \<longrightarrow>
               (\<exists>w''. handleKeyPress u key w' = Continue w'' \<and>
                  formData (tui w'') =
                    formData (saveCurrentField
                      (stepsOf (currentView (tui w) = CustomerForm) ! formStep (tui w)) (tui w)))))"
proof -
  let ?m = "ConfirmSave (recordName (tui w)) (truthy (editingId (tui w)))"
  let ?w' = "drawn (DrawConfirmation (Some ?m) Save)
       (w\<lparr>tui := (tui w)\<lparr>previousView := Some (currentView (tui w)), currentView := ConfirmAction,
             confirmAction := Some Save, confirmMessage := Some ?m, confirmIndex := 1\<rparr>\<rparr>)"
  let ?steps = "stepsOf (currentView (tui w) = CustomerForm)"
  have step: "handleKeyPress uuid keyCtrlS w = Continue ?w'"
    using assms by (rule handleKeyPress_ctrlS)
  have later: "\<exists>w''. handleKeyPress u key ?w' = Continue w'' \<and>
      formData (tui w'') = formData (saveCurrentField (?steps ! formStep (tui w)) (tui w))"
    if "formStep (tui w) < length ?steps" "isEnter key" for key u
  proof -
    have "handleKeyPress u key ?w' = Continue (executeFormSave u ?w')"
      using that(2) by (simp add: confirm_enter)
    moreover have "tui (executeFormSave u ?w') = saveCurrentField (?steps ! formStep (tui w)) (tui ?w')"
      using that(1) by (simp add: tui_executeFormSave)
    moreover have "formData (saveCurrentField (?steps ! formStep (tui w)) (tui ?w')) =
        formData (saveCurrentField (?steps ! formStep (tui w)) (tui w))"
      by (rule formData_saveCurrentField_cong) simp_all
    ultimately show ?thesis by simp
  qed
  show ?thesis
    using step later by (intro exI [of _ ?w']) simp
qed


theorem ctrlS_confirms_before_commit_witness:
  "endsWithForm (currentView (tui (exampleWorld (newFormAt CustomerForm 0 (str ''Ada''))))) \<and>
   formStep (tui (exampleWorld (newFormAt CustomerForm 0 (str ''Ada'')))) < length customerFormSteps \<and>
   isEnter [0x0D] \<and>
   (\<exists>w'. handleKeyPress [] keyCtrlS (exampleWorld (newFormAt CustomerForm 0 (str ''Ada''))) = Continue w' \<and>
      currentView (tui w') = ConfirmAction \<and> confirmAction (tui w') = Some Save \<and>
      confirmIndex (tui w') = 1 \<and> formData (tui w') ''CustomerName'' = JUndef \<and>
      (\<exists>w''. handleKeyPress (str ''u1'') [0x0D] w' = Continue w'' \<and>
         formData (tui w'') ''CustomerName'' = JStr (str ''Ada'')))"
proof -
  let ?w = "exampleWorld (newFormAt CustomerForm 0 (str ''Ada''))"
  have f: "endsWithForm (currentView (tui ?w))"
    by (simp add: endsWithForm_def)
  have i: "formStep (tui ?w) < length (stepsOf (currentView (tui ?w) = CustomerForm))"
    by (simp add: stepsOf_def customerFormSteps_def)
  have e: "isEnter [0x0D]" by (simp add: isEnter_def)
  have v: "formData (saveCurrentField (stepsOf (currentView (tui ?w) = CustomerForm) ! formStep (tui ?w)) (tui ?w))
      ''CustomerName'' = JStr (str ''Ada'')"
    by (simp add: stepsOf_def customerFormSteps_def saveCurrentField_def)
  have u: "formData (tui ?w) ''CustomerName'' = JUndef"
    by (simp add: emptyObj_def)
  from ctrlS_confirms_before_commit [OF f, of "[]"] i e v u
  have "\<exists>w'. handleKeyPress [] keyCtrlS ?w = Continue w' \<and>
      currentView (tui w') = ConfirmAction \<and> confirmAction (tui w') = Some Save \<and>
      confirmIndex (tui w') = 1 \<and> formData (tui w') ''CustomerName'' = JUndef \<and>
      (\<exists>w''. handleKeyPress (str ''u1'') [0x0D] w' = Continue w'' \<and>
         formData (tui w'') ''CustomerName'' = JStr (str ''Ada''))"
    by (metis (no_types, lifting))
  then show ?thesis using f i e by (simp add: stepsOf_def)
qed

theorem ctrlS_commit_counterexample:
  "inputBuffer (tui (exampleWorld (newFormAt CustomerForm 0 (str ''Ada'')))) = str ''Ada'' \<and>
   viewAfter (handleKeyPress [] keyCtrlS (exampleWorld (newFormAt CustomerForm 0 (str ''Ada''))))
     = Some ConfirmAction \<and>
   fieldAfter (handleKeyPress [] keyCtrlS (exampleWorld (newFormAt CustomerForm 0 (str ''Ada''))))
     ''CustomerName'' = Some JUndef \<and>
   JUndef \<noteq> JStr (str ''Ada'')"
  by (simp add: viewAfter_def fieldAfter_def handleKeyPress_def key_defs Let_def endsWithForm_def
      emptyObj_def)

lemma returnToForm_form:
  "previousView (tui w) = Some v \<Longrightarrow> endsWithForm v \<Longrightarrow>
   formStep (tui w) < length (stepsOf (v = CustomerForm)) \<Longrightarrow>
   returnToForm w =
     Continue (redrawForm
       ((tui w)\<lparr>currentView := v,
           inputBuffer := bufferOf (formData (tui w)) (stepsOf (v = CustomerForm) ! formStep (tui w))\<rparr>) w)"
  by (auto simp: returnToForm_def endsWithForm_def stepsOf_def)

lemma executeFormDelete_form:
  "previousView (tui w) = Some v \<Longrightarrow> endsWithForm v \<Longrightarrow>
   executeFormDelete w =
     showMessage (if v = CustomerForm then CustomerDeleted else ProductDeleted) False
       (called (CallDelete (if v = CustomerForm then Customers else Products) (editingId (tui w)))
          (w\<lparr>db := (if v = CustomerForm then fst (customerDelete (db w) (editingId (tui w)))
                     else fst (productDelete (db w) (editingId (tui w))))\<rparr>))"
  by (auto simp: executeFormDelete_def endsWithForm_def split: prod.splits)

lemma world_redrawForm [simp]:
  "tui (redrawForm s w) = s" "db (redrawForm s w) = db w" "timers (redrawForm s w) = timers w"
  "calls (redrawForm s w) = calls w"
  "paints (redrawForm s w) = paints w @ [DrawForm (formTitle s) (truthy (editingId s))]"
  by (simp_all add: redrawForm_def)

lemma world_redrawConfirmation [simp]:
  "tui (redrawConfirmation s w) = s" "db (redrawConfirmation s w) = db w"
  "timers (redrawConfirmation s w) = timers w" "calls (redrawConfirmation s w) = calls w"
  by (simp_all add: redrawConfirmation_def)

lemma confirm_no_store:
  assumes "currentView (tui c) = ConfirmAction" "confirmIndex (tui c) \<noteq> 1"
    "handleKeyPress u key c = Continue c'"
  shows "db c' = db c \<and> calls c' = calls c"
proof (cases "key = keyCtrlC \<or> key = keyEsc")
  case True
  then show ?thesis
    using assms
    by (auto simp: handleKeyPress_def handleEscape_def Let_def endsWithForm_def endsWithList_def key_defs
        split: if_splits)
next
  case False
  then have "handleConfirmation u key c = Continue c'"
    using assms by (simp add: handleKeyPress_confirm)
  then show ?thesis
    using assms(2)
    by (auto simp: handleConfirmation_def returnToForm_def split: if_splits)
qed



lemma editingForm_fields [simp]:
  "currentView (editingForm v r) = v" "formStep (editingForm v r) = 0"
  "formData (editingForm v r) = r" "editingId (editingForm v r) = r ''id''"
  "inputBuffer (editingForm v r) = bufferOf r (stepsOf (v = CustomerForm) ! 0)"
  by (simp_all add: editingForm_def initialState_def)

lemma world_worldOf [simp]:
  "tui (worldOf st s) = s" "db (worldOf st s) = st" "timers (worldOf st s) = []"
  "paints (worldOf st s) = []" "calls (worldOf st s) = []"
  by (simp_all add: worldOf_def)

text \<open>
  Claim C5. Ctrl+D in a form that edits a record opens the confirmation of a delete
  with the choice on no (\<open>confirmIndex = 0\<close>). Enter on that default makes no store
  call, leaves the store as it is and returns to the originating form on the same
  step. The delete is executed by Enter only after Right has set the choice to yes.
  In the confirmation view no key changes or calls the store while the choice is not
  yes.
\<close>

theorem delete_needs_explicit_yes:
  assumes "endsWithForm (currentView (tui w))" "truthy (editingId (tui w))"
    and "formStep (tui w) < length (stepsOf (currentView (tui w) = CustomerForm))"
    and "isEnter enter"
  shows "\<exists>w1. handleKeyPress u1 keyCtrlD w = Continue w1 \<and>
           currentView (tui w1) = ConfirmAction \<and> confirmAction (tui w1) = Some Delete \<and>
           confirmIndex (tui w1) = 0 \<and> db w1 = db w \<and> calls w1 = calls w \<and>
           (\<exists>w2. handleKeyPress u2 enter w1 = Continue w2 \<and>
              db w2 = db w \<and> calls w2 = calls w \<and> timers w2 = timers w \<and>
              currentView (tui w2) = currentView (tui w) \<and> formStep (tui w2) = formStep (tui w) \<and>
              formData (tui w2) = formData (tui w) \<and> editingId (tui w2) = editingId (tui w) \<and>
              inputBuffer (tui w2) =
                bufferOf (formData (tui w))
                  (stepsOf (currentView (tui w) = CustomerForm) ! formStep (tui w))) \<and>
           (\<exists>w3 w4. handleKeyPress u3 keyRight w1 = Continue w3 \<and> confirmIndex (tui w3) = 1 \<and>
              db w3 = db w \<and> calls w3 = calls w \<and>
              handleKeyPress u4 enter w3 = Continue w4 \<and>
              calls w4 = calls w @
                [CallDelete (if currentView (tui w) = CustomerForm then Customers else Products)
                   (editingId (tui w))] \<and>
              db w4 = (if currentView (tui w) = CustomerForm
                       then fst (customerDelete (db w) (editingId (tui w)))
                       else fst (productDelete (db w) (editingId (tui w))))) \<and>
           (\<forall>c key u c'. currentView (tui c) = ConfirmAction \<and> confirmIndex (tui c) \<noteq> 1 \<and>
              handleKeyPress u key c = Continue c' \<longrightarrow> db c' = db c \<and> calls c' = calls c)"
proof -
  let ?v = "currentView (tui w)"
  let ?m = "ConfirmDelete (recordName (tui w))"
  let ?s1 = "(tui w)\<lparr>previousView := Some ?v, currentView := ConfirmAction,
             confirmAction := Some Delete, confirmMessage := Some ?m, confirmIndex := 0\<rparr>"
  let ?w1 = "drawn (DrawConfirmation (Some ?m) Delete) (w\<lparr>tui := ?s1\<rparr>)"
  let ?st = "stepsOf (?v = CustomerForm) ! formStep (tui w)"
  have 1: "handleKeyPress u1 keyCtrlD w = Continue ?w1"
    using assms(1,2) by (rule handleKeyPress_ctrlD)
  let ?w2 = "redrawForm (?s1\<lparr>currentView := ?v, inputBuffer := bufferOf (formData (tui w)) ?st\<rparr>) ?w1"
  have "returnToForm ?w1 = Continue ?w2"
    using returnToForm_form [of ?w1 ?v] assms(1,3) by simp
  then have 2: "handleKeyPress u2 enter ?w1 = Continue ?w2"
    using assms(4) by (simp add: confirm_enter)
  let ?w3 = "redrawConfirmation (?s1\<lparr>confirmIndex := 1\<rparr>) ?w1"
  have 3: "handleKeyPress u3 keyRight ?w1 = Continue ?w3"
    by (simp add: handleKeyPress_confirm handleConfirmation_def key_defs)
  let ?w4 = "executeFormDelete ?w3"
  have 4: "handleKeyPress u4 enter ?w3 = Continue ?w4"
    using assms(4) by (simp add: confirm_enter)
  have 5: "calls ?w4 = calls w @ [CallDelete (if ?v = CustomerForm then Customers else Products)
                   (editingId (tui w))]"
    "db ?w4 = (if ?v = CustomerForm then fst (customerDelete (db w) (editingId (tui w)))
               else fst (productDelete (db w) (editingId (tui w))))"
    using executeFormDelete_form [of ?w3 ?v] assms(1) by simp_all
  have 6: "\<forall>c key u c'. currentView (tui c) = ConfirmAction \<and> confirmIndex (tui c) \<noteq> 1 \<and>
              handleKeyPress u key c = Continue c' \<longrightarrow> db c' = db c \<and> calls c' = calls c"
    using confirm_no_store by blast
  have a: "\<exists>w2. handleKeyPress u2 enter ?w1 = Continue w2 \<and>
              db w2 = db w \<and> calls w2 = calls w \<and> timers w2 = timers w \<and>
              currentView (tui w2) = ?v \<and> formStep (tui w2) = formStep (tui w) \<and>
              formData (tui w2) = formData (tui w) \<and> editingId (tui w2) = editingId (tui w) \<and>
              inputBuffer (tui w2) = bufferOf (formData (tui w)) ?st"
    using 2 by (intro exI [of _ ?w2]) simp
  have b: "\<exists>w3 w4. handleKeyPress u3 keyRight ?w1 = Continue w3 \<and> confirmIndex (tui w3) = 1 \<and>
              db w3 = db w \<and> calls w3 = calls w \<and>
              handleKeyPress u4 enter w3 = Continue w4 \<and>
              calls w4 = calls w @
                [CallDelete (if ?v = CustomerForm then Customers else Products) (editingId (tui w))] \<and>
              db w4 = (if ?v = CustomerForm
                       then fst (customerDelete (db w) (editingId (tui w)))
                       else fst (productDelete (db w) (editingId (tui w))))"
    using 3 4 5 by (intro exI [of _ ?w3] exI [of _ ?w4]) simp
  show ?thesis
    using 1 a b 6 by (intro exI [of _ ?w1]) simp
qed



theorem delete_needs_explicit_yes_witness:
  "endsWithForm (currentView (tui (exampleWorld (editingForm CustomerForm bob)))) \<and>
   truthy (editingId (tui (exampleWorld (editingForm CustomerForm bob)))) \<and>
   isEnter [0x0D] \<and>
   (\<exists>w1. handleKeyPress [] keyCtrlD (exampleWorld (editingForm CustomerForm bob)) = Continue w1 \<and>
      confirmIndex (tui w1) = 0 \<and>
      (\<exists>w2. handleKeyPress [] [0x0D] w1 = Continue w2 \<and>
         customers (db w2) = [ada, bob] \<and> calls w2 = [] \<and> currentView (tui w2) = CustomerForm) \<and>
      (\<exists>w3 w4. handleKeyPress [] keyRight w1 = Continue w3 \<and>
         handleKeyPress [] [0x0D] w3 = Continue w4 \<and>
         customers (db w4) = [ada] \<and> calls w4 = [CallDelete Customers (JStr (str ''c2''))]))"
proof -
  let ?w = "exampleWorld (editingForm CustomerForm bob)"
  have 1: "endsWithForm (currentView (tui ?w))" by (simp add: endsWithForm_def)
  have 2: "truthy (editingId (tui ?w))" by (simp add: bob_def)
  have 3: "formStep (tui ?w) < length (stepsOf (currentView (tui ?w) = CustomerForm))"
    by (simp add: stepsOf_def customerFormSteps_def)
  have 4: "isEnter [0x0D]" by (simp add: isEnter_def)
  have 5: "fst (customerDelete exampleStore (JStr (str ''c2''))) = exampleStore\<lparr>customers := [ada]\<rparr>"
    by (simp add: customerDelete_def idIs_def isNull_def example_defs)
  have 6: "bob ''id'' = JStr (str ''c2'')" by (simp add: bob_def)
  from delete_needs_explicit_yes [OF 1 2 3 4, of "[]" "[]" "[]" "[]"]
  obtain w1 w2 w3 w4 where
    "handleKeyPress [] keyCtrlD ?w = Continue w1" "confirmIndex (tui w1) = 0"
    "handleKeyPress [] [0x0D] w1 = Continue w2" "db w2 = db ?w" "calls w2 = calls ?w"
    "currentView (tui w2) = currentView (tui ?w)"
    "handleKeyPress [] keyRight w1 = Continue w3" "handleKeyPress [] [0x0D] w3 = Continue w4"
    "calls w4 = calls ?w @ [CallDelete (if currentView (tui ?w) = CustomerForm then Customers else Products)
                   (editingId (tui ?w))]"
    "db w4 = (if currentView (tui ?w) = CustomerForm
                       then fst (customerDelete (db ?w) (editingId (tui ?w)))
                       else fst (productDelete (db ?w) (editingId (tui ?w))))"
    by blast
  then have "\<exists>w1. handleKeyPress [] keyCtrlD ?w = Continue w1 \<and>
      confirmIndex (tui w1) = 0 \<and>
      (\<exists>w2. handleKeyPress [] [0x0D] w1 = Continue w2 \<and>
         customers (db w2) = [ada, bob] \<and> calls w2 = [] \<and> currentView (tui w2) = CustomerForm) \<and>
      (\<exists>w3 w4. handleKeyPress [] keyRight w1 = Continue w3 \<and>
         handleKeyPress [] [0x0D] w3 = Continue w4 \<and>
         customers (db w4) = [ada] \<and> calls w4 = [CallDelete Customers (JStr (str ''c2''))])"
    using 5 6 by (intro exI [of _ w1] conjI exI [of _ w2] exI [of _ w3] exI [of _ w4])
      (simp_all add: exampleStore_def)
  then show ?thesis using 1 2 4 by simp
qed



section \<open>After the confirmation\<close>

lemma executeFormSave_effects:
  assumes "previousView (tui w) = Some v" "endsWithForm v"
    and "formStep (tui w) < length (stepsOf (v = CustomerForm))"
  shows "calls (executeFormSave u w) = calls w @ [saveCall (tui w)]"
    and "\<exists>m e. paints (executeFormSave u w) = paints w @ [ShowMessage m e]"
    and "timers (executeFormSave u w) = timers w @ [(2000, MessageReturn)]"
proof -
  from assms(2) consider "v = CustomerForm" | "v = ProductForm" by (auto simp: endsWithForm_def)
  then have "calls (executeFormSave u w) = calls w @ [saveCall (tui w)] \<and>
    (\<exists>m e. paints (executeFormSave u w) = paints w @ [ShowMessage m e]) \<and>
    timers (executeFormSave u w) = timers w @ [(2000, MessageReturn)]"
  proof cases
    case 1
    then show ?thesis using assms(1,3)
      by (auto simp: executeFormSave_def saveCall_def Let_def split: sum.splits prod.splits)
  next
    case 2
    then show ?thesis using assms(1,3)
      by (auto simp: executeFormSave_def saveCall_def Let_def split: sum.splits prod.splits)
  qed
  then show "calls (executeFormSave u w) = calls w @ [saveCall (tui w)]"
    and "\<exists>m e. paints (executeFormSave u w) = paints w @ [ShowMessage m e]"
    and "timers (executeFormSave u w) = timers w @ [(2000, MessageReturn)]"
    by simp_all
qed

lemma executeFormDelete_effects:
  assumes "previousView (tui w) = Some v" "endsWithForm v"
  shows "calls (executeFormDelete w) = calls w @ [deleteCall (tui w)]"
    and "\<exists>m e. paints (executeFormDelete w) = paints w @ [ShowMessage m e]"
    and "timers (executeFormDelete w) = timers w @ [(2000, MessageReturn)]"
    and "tui (executeFormDelete w) = tui w"
  using assms by (auto simp: executeFormDelete_form deleteCall_def endsWithForm_def)

lemma saveCurrentField_twice:
  "saveCurrentField st (saveCurrentField st s) = saveCurrentField st s"
  by (simp add: saveCurrentField_def)

lemma saveCall_saved [simp]: "saveCall (saveCurrentField st s) = saveCall s"
  by (simp add: saveCall_def)

lemma confirmingSave_fields [simp]:
  "currentView (confirmingSave s) = ConfirmAction" "previousView (confirmingSave s) = Some (currentView s)"
  "confirmAction (confirmingSave s) = Some Save" "confirmIndex (confirmingSave s) = 1"
  "formData (confirmingSave s) = formData s" "formStep (confirmingSave s) = formStep s"
  "inputBuffer (confirmingSave s) = inputBuffer s" "editingId (confirmingSave s) = editingId s"
  by (simp_all add: confirmingSave_def)

lemma confirmingDelete_fields [simp]:
  "currentView (confirmingDelete s) = ConfirmAction"
  "previousView (confirmingDelete s) = Some (currentView s)"
  "confirmAction (confirmingDelete s) = Some Delete" "confirmIndex (confirmingDelete s) = 0"
  "formData (confirmingDelete s) = formData s" "formStep (confirmingDelete s) = formStep s"
  "inputBuffer (confirmingDelete s) = inputBuffer s" "editingId (confirmingDelete s) = editingId s"
  by (simp_all add: confirmingDelete_def)

lemma confirm_yes_step:
  assumes c: "confirming a v w" and i: "confirmIndex (tui w) = 1" and k: "isEnter key"
  shows "\<exists>m e. handleKeyPress u key w = Continue (execute a u w) \<and>
           confirming a v (execute a u w) \<and> confirmIndex (tui (execute a u w)) = 1 \<and>
           calls (execute a u w) = calls w @ [pendingCall a (tui w)] \<and>
           timers (execute a u w) = timers w @ [(2000, MessageReturn)] \<and>
           paints (execute a u w) = paints w @ [ShowMessage m e] \<and>
           pendingCall a (tui (execute a u w)) = pendingCall a (tui w)"
proof (cases a)
  case Save
  let ?st = "stepsOf (v = CustomerForm) ! formStep (tui w)"
  let ?w1 = "executeFormSave u w"
  from c have pv: "previousView (tui w) = Some v" and ef: "endsWithForm v"
    and fs: "formStep (tui w) < length (stepsOf (v = CustomerForm))"
    and cv: "currentView (tui w) = ConfirmAction" and ca: "confirmAction (tui w) = Some a"
    by (simp_all add: confirming_def)
  have pv': "(previousView (tui w) = Some CustomerForm) = (v = CustomerForm)"
    using pv by auto
  have t1: "tui ?w1 = saveCurrentField ?st (tui w)"
    using fs by (simp add: tui_executeFormSave pv')
  have 1: "handleKeyPress u key w = Continue ?w1"
    using cv i ca k Save by (simp add: confirm_enter)
  note e1 = executeFormSave_effects [OF pv ef fs, of u]
  from e1(2) obtain m e where me: "paints ?w1 = paints w @ [ShowMessage m e]" by blast
  have c1: "confirming a v ?w1"
    using c by (simp add: confirming_def t1)
  show ?thesis
    using 1 c1 me e1(1,3) i Save
    by (intro exI [of _ m] exI [of _ e]) (simp add: t1 execute_def pendingCall_def)
next
  case Delete
  let ?w1 = "executeFormDelete w"
  from c have pv: "previousView (tui w) = Some v" and ef: "endsWithForm v"
    and cv: "currentView (tui w) = ConfirmAction" and ca: "confirmAction (tui w) = Some a"
    by (simp_all add: confirming_def)
  note e1 = executeFormDelete_effects [OF pv ef]
  have 1: "handleKeyPress u key w = Continue ?w1"
    using cv i ca k Delete by (simp add: confirm_enter)
  from e1(2) obtain m e where me: "paints ?w1 = paints w @ [ShowMessage m e]" by blast
  have c1: "confirming a v ?w1"
    using c by (simp add: confirming_def e1(4))
  show ?thesis
    using 1 c1 me e1(1,3) i Delete
    by (intro exI [of _ m] exI [of _ e]) (simp add: e1(4) execute_def pendingCall_def)
qed

lemma isMessage_ShowMessage [simp]: "isMessage (ShowMessage m e)"
  by (simp add: isMessage_def)

lemma confirm_yes_repeat:
  "confirming a v w \<Longrightarrow> confirmIndex (tui w) = 1 \<Longrightarrow> list_all isEnterPress es \<Longrightarrow>
   \<exists>wn ms. handleEvents es w = Continue wn \<and> confirming a v wn \<and> confirmIndex (tui wn) = 1 \<and>
     calls wn = calls w @ replicate (length es) (pendingCall a (tui w)) \<and>
     timers wn = timers w @ replicate (length es) (2000, MessageReturn) \<and>
     paints wn = paints w @ ms \<and> length ms = length es \<and> list_all isMessage ms"
proof (induction es arbitrary: w)
  case Nil
  then show ?case by simp
next
  case (Cons ev es)
  from Cons.prems(3) obtain key u where ev: "ev = KeyPress key u" and k: "isEnter key"
    by (cases ev) (simp_all add: isEnterPress_def)
  from confirm_yes_step [OF Cons.prems(1,2) k, of u]
  obtain m e where s:
    "handleKeyPress u key w = Continue (execute a u w) \<and>
     confirming a v (execute a u w) \<and> confirmIndex (tui (execute a u w)) = 1 \<and>
     calls (execute a u w) = calls w @ [pendingCall a (tui w)] \<and>
     timers (execute a u w) = timers w @ [(2000, MessageReturn)] \<and>
     paints (execute a u w) = paints w @ [ShowMessage m e] \<and>
     pendingCall a (tui (execute a u w)) = pendingCall a (tui w)"
    by blast
  let ?w1 = "execute a u w"
  from Cons.prems(3) have r: "list_all isEnterPress es" by simp
  from s have c1: "confirming a v ?w1" and i1: "confirmIndex (tui ?w1) = 1" by simp_all
  from Cons.IH [OF c1 i1 r]
  obtain wn ms where n:
    "handleEvents es ?w1 = Continue wn \<and> confirming a v wn \<and> confirmIndex (tui wn) = 1 \<and>
     calls wn = calls ?w1 @ replicate (length es) (pendingCall a (tui ?w1)) \<and>
     timers wn = timers ?w1 @ replicate (length es) (2000, MessageReturn) \<and>
     paints wn = paints ?w1 @ ms \<and> length ms = length es \<and> list_all isMessage ms"
    by blast
  show ?case
    using s n ev
    by (intro exI [of _ wn] exI [of _ "ShowMessage m e # ms"])
       (simp add: replicate_app_Cons_same)
qed

lemma confirm_other_key:
  assumes c: "confirming a v w" and k: "key \<noteq> keyCtrlC" "key \<noteq> keyEsc" "\<not> isEnter key"
  shows "\<exists>w'. handleKeyPress u key w = Continue w' \<and> confirming a v w' \<and>
           calls w' = calls w \<and> db w' = db w \<and> timers w' = timers w"
proof -
  from c have cv: "currentView (tui w) = ConfirmAction" by (simp add: confirming_def)
  have "handleKeyPress u key w = handleConfirmation u key w"
    using cv k by (simp add: handleKeyPress_confirm)
  then show ?thesis
    using c k(3) by (simp add: handleConfirmation_def confirming_def)
qed

lemma confirm_no_step:
  assumes c: "confirming a v w" and i: "confirmIndex (tui w) \<noteq> 1" and k: "isEnter key"
  shows "\<exists>w'. handleKeyPress u key w = Continue w' \<and> currentView (tui w') = v \<and>
           calls w' = calls w \<and> db w' = db w \<and> timers w' = timers w"
proof -
  from c have cv: "currentView (tui w) = ConfirmAction" and pv: "previousView (tui w) = Some v"
    and ef: "endsWithForm v" and fs: "formStep (tui w) < length (stepsOf (v = CustomerForm))"
    by (simp_all add: confirming_def)
  show ?thesis
    using i k by (simp add: confirm_enter [OF cv k] returnToForm_form [OF pv ef fs])
qed

lemma confirm_escape:
  assumes c: "confirming a v w"
  shows "\<exists>w'. handleKeyPress u keyEsc w = Continue w' \<and> currentView (tui w') = v \<and>
           calls w' = calls w \<and> db w' = db w \<and> timers w' = timers w"
proof -
  from c have cv: "currentView (tui w) = ConfirmAction" and pv: "previousView (tui w) = Some v"
    and ef: "endsWithForm v" and fs: "formStep (tui w) < length (stepsOf (v = CustomerForm))"
    by (simp_all add: confirming_def)
  have "handleKeyPress u keyEsc w = handleEscape w"
    using cv by (simp add: handleKeyPress_def Let_def endsWithForm_def endsWithList_def key_defs)
  moreover have "\<exists>w'. handleEscape w = Continue w' \<and> currentView (tui w') = v \<and>
           calls w' = calls w \<and> db w' = db w \<and> timers w' = timers w"
    using cv pv ef fs
    by (auto simp: handleEscape_def Let_def endsWithForm_def endsWithList_def stepsOf_def)
  ultimately show ?thesis by simp
qed

lemma confirm_any_timer:
  assumes c: "confirming a v w" and i: "i < length (timers w)"
  shows "\<exists>w'. handleEvent (TimerFires i) w = Continue w' \<and>
           currentView (tui w') =
             (case snd (timers w ! i) of
                MessageReturn \<Rightarrow> (if v = CustomerForm then CustomerList else ProductList)
              | StatsReturn \<Rightarrow> MainMenu)"
proof -
  from c have pv: "previousView (tui w) = Some v" by (simp add: confirming_def)
  show ?thesis
    using i pv
    by (cases "snd (timers w ! i)") (simp_all add: fireTimer_def messageReturn_def statsReturn_def)
qed

text \<open>
  Claim C10 (as amended). In the confirmation of a save or a delete opened from a
  form, Enter on yes runs the action (the store call is made, the Message screen is
  painted and its timer of 2000 ms started) and leaves \<open>currentView\<close> at the
  confirmation with the choice still on yes. As long as the view is the confirmation,
  every key other than Ctrl+C and Escape (the two that \<^verbatim>\<open>handleKeyPress\<close>
  handles before it looks at the view) goes to \<^verbatim>\<open>handleConfirmation\<close>,
  whatever timers are pending: each further Enter on yes runs the same save or delete
  again, so \<open>n\<close> times Enter make the store call \<open>n\<close> times and start
  \<open>n\<close> timers; any other such key keeps the session in the confirmation and
  makes no store call. The view leaves the confirmation when a pending timer fires
  (the Message timer leads to the list of the form), and before that by Escape or by
  Enter on no, which both return to the form with the timers still pending; Ctrl+C
  ends the process.
\<close>

theorem confirmed_action_repeats:
  "(\<forall>u. handleKeyPress u keyCtrlC w = Exit) \<and>
   (currentView (tui w) = ConfirmAction \<longrightarrow>
      (\<forall>key u. key \<noteq> keyCtrlC \<and> key \<noteq> keyEsc \<longrightarrow>
         handleKeyPress u key w = handleConfirmation u key w)) \<and>
   (confirming a v w \<longrightarrow>
      (confirmIndex (tui w) = 1 \<longrightarrow>
         (\<forall>key u. isEnter key \<longrightarrow>
            handleKeyPress u key w = Continue (execute a u w) \<and>
            currentView (tui (execute a u w)) = ConfirmAction) \<and>
         (\<forall>es. list_all isEnterPress es \<longrightarrow>
            (\<exists>wn ms. handleEvents es w = Continue wn \<and>
               confirming a v wn \<and> confirmIndex (tui wn) = 1 \<and>
               calls wn = calls w @ replicate (length es) (pendingCall a (tui w)) \<and>
               timers wn = timers w @ replicate (length es) (2000, MessageReturn) \<and>
               paints wn = paints w @ ms \<and> length ms = length es \<and> list_all isMessage ms))) \<and>
      (\<forall>key u. key \<noteq> keyCtrlC \<and> key \<noteq> keyEsc \<and> \<not> isEnter key \<longrightarrow>
         (\<exists>w'. handleKeyPress u key w = Continue w' \<and> confirming a v w' \<and>
            calls w' = calls w \<and> db w' = db w \<and> timers w' = timers w)) \<and>
      (\<forall>key u. isEnter key \<and> confirmIndex (tui w) \<noteq> 1 \<longrightarrow>
         (\<exists>w'. handleKeyPress u key w = Continue w' \<and> currentView (tui w') = v \<and>
            calls w' = calls w \<and> db w' = db w \<and> timers w' = timers w)) \<and>
      (\<forall>u. \<exists>w'. handleKeyPress u keyEsc w = Continue w' \<and> currentView (tui w') = v \<and>
            calls w' = calls w \<and> db w' = db w \<and> timers w' = timers w) \<and>
      (\<forall>i. i < length (timers w) \<longrightarrow>
         (\<exists>w'. handleEvent (TimerFires i) w = Continue w' \<and>
            currentView (tui w') =
              (case snd (timers w ! i) of
                 MessageReturn \<Rightarrow> (if v = CustomerForm then CustomerList else ProductList)
               | StatsReturn \<Rightarrow> MainMenu))))"
proof (intro conjI allI impI)
  fix u
  show "handleKeyPress u keyCtrlC w = Exit"
    by (simp add: handleKeyPress_def)
next
  fix key u
  assume "currentView (tui w) = ConfirmAction" "key \<noteq> keyCtrlC \<and> key \<noteq> keyEsc"
  then show "handleKeyPress u key w = handleConfirmation u key w"
    by (simp add: handleKeyPress_confirm)
next
  fix key u
  assume "confirming a v w" "confirmIndex (tui w) = 1" "isEnter key"
  from confirm_yes_step [OF this, of u]
  show "handleKeyPress u key w = Continue (execute a u w)" by blast
next
  fix key u
  assume "confirming a v w" "confirmIndex (tui w) = 1" "isEnter key"
  from confirm_yes_step [OF this, of u]
  show "currentView (tui (execute a u w)) = ConfirmAction" by (auto simp: confirming_def)
next
  fix es
  assume "confirming a v w" "confirmIndex (tui w) = 1" "list_all isEnterPress es"
  from confirm_yes_repeat [OF this]
  show "\<exists>wn ms. handleEvents es w = Continue wn \<and>
             confirming a v wn \<and> confirmIndex (tui wn) = 1 \<and>
             calls wn = calls w @ replicate (length es) (pendingCall a (tui w)) \<and>
             timers wn = timers w @ replicate (length es) (2000, MessageReturn) \<and>
             paints wn = paints w @ ms \<and> length ms = length es \<and> list_all isMessage ms" .
next
  fix key u
  assume c: "confirming a v w" and "key \<noteq> keyCtrlC \<and> key \<noteq> keyEsc \<and> \<not> isEnter key"
  then show "\<exists>w'. handleKeyPress u key w = Continue w' \<and> confirming a v w' \<and>
          calls w' = calls w \<and> db w' = db w \<and> timers w' = timers w"
    using confirm_other_key [OF c, of key u] by simp
next
  fix key u
  assume c: "confirming a v w" and "isEnter key \<and> confirmIndex (tui w) \<noteq> 1"
  then show "\<exists>w'. handleKeyPress u key w = Continue w' \<and> currentView (tui w') = v \<and>
          calls w' = calls w \<and> db w' = db w \<and> timers w' = timers w"
    using confirm_no_step [OF c, of key u] by simp
next
  fix u
  assume c: "confirming a v w"
  show "\<exists>w'. handleKeyPress u keyEsc w = Continue w' \<and> currentView (tui w') = v \<and>
          calls w' = calls w \<and> db w' = db w \<and> timers w' = timers w"
    by (rule confirm_escape [OF c])
next
  fix i
  assume c: "confirming a v w" and "i < length (timers w)"
  then show "\<exists>w'. handleEvent (TimerFires i) w = Continue w' \<and>
          currentView (tui w') =
            (case snd (timers w ! i) of
               MessageReturn \<Rightarrow> (if v = CustomerForm then CustomerList else ProductList)
             | StatsReturn \<Rightarrow> MainMenu)"
    by (rule confirm_any_timer)
qed


theorem confirmed_action_repeats_witness:
  "confirming Save CustomerForm (exampleWorld (confirmingSave (newFormAt CustomerForm 0 (str ''Ada'')))) \<and>
   confirmIndex (tui (exampleWorld (confirmingSave (newFormAt CustomerForm 0 (str ''Ada''))))) = 1 \<and>
   list_all isEnterPress [KeyPress [0x0D] (str ''u1''), KeyPress [0x0D] (str ''u2'')] \<and>
   (\<exists>w2. handleEvents [KeyPress [0x0D] (str ''u1''), KeyPress [0x0D] (str ''u2'')]
            (exampleWorld (confirmingSave (newFormAt CustomerForm 0 (str ''Ada'')))) = Continue w2 \<and>
      currentView (tui w2) = ConfirmAction \<and>
      calls w2 = [CallCreate Customers, CallCreate Customers] \<and>
      timers w2 = [(2000, MessageReturn), (2000, MessageReturn)] \<and>
      paints w2 = [ShowMessage CustomerCreated False, ShowMessage CustomerCreated False] \<and>
      map (\<lambda>r. r ''id'') (customers (db w2)) =
        [JStr (str ''c1''), JStr (str ''c2''), JStr (str ''u1''), JStr (str ''u2'')] \<and>
      map (\<lambda>r. r ''CustomerName'') (customers (db w2)) =
        [JStr (str ''Ada Lovelace''), JStr (str ''Bob''), JStr (str ''Ada''), JStr (str ''Ada'')])"
proof -
  let ?w = "exampleWorld (confirmingSave (newFormAt CustomerForm 0 (str ''Ada'')))"
  let ?es = "[KeyPress [0x0D] (str ''u1''), KeyPress [0x0D] (str ''u2'')]"
  have a: "confirming Save CustomerForm ?w"
    by (simp add: confirming_def endsWithForm_def stepsOf_def customerFormSteps_def)
  have i: "confirmIndex (tui ?w) = 1" by simp
  have l: "list_all isEnterPress ?es" by (simp add: isEnterPress_def isEnter_def)
  let ?w1 = "executeFormSave (str ''u1'') ?w"
  let ?w2 = "executeFormSave (str ''u2'') ?w1"
  have t1: "tui ?w1 = saveCurrentField (customerFormSteps ! 0) (confirmingSave (newFormAt CustomerForm 0 (str ''Ada'')))"
    by (simp add: tui_executeFormSave stepsOf_def customerFormSteps_def)
  have r: "handleEvents ?es ?w = Continue ?w2"
    by (simp add: confirm_enter isEnter_def t1)
  have e2: "map (\<lambda>r. r ''id'') (customers (db ?w2)) =
        [JStr (str ''c1''), JStr (str ''c2''), JStr (str ''u1''), JStr (str ''u2'')]"
    "map (\<lambda>r. r ''CustomerName'') (customers (db ?w2)) =
        [JStr (str ''Ada Lovelace''), JStr (str ''Bob''), JStr (str ''Ada''), JStr (str ''Ada'')]"
    "paints ?w2 = [ShowMessage CustomerCreated False, ShowMessage CustomerCreated False]"
    by (simp_all add: executeFormSave_def saveCurrentField_def customerCreate_def isNull_def
        stepsOf_def customerFormSteps_def example_defs emptyObj_def jsor_def Let_def)
  have c: "pendingCall Save (tui ?w) = CallCreate Customers"
    by (simp add: pendingCall_def saveCall_def)
  from confirmed_action_repeats [of ?w Save CustomerForm] a i l
  obtain wn where
    "handleEvents ?es ?w = Continue wn \<and> confirming Save CustomerForm wn \<and>
     calls wn = calls ?w @ replicate (length ?es) (pendingCall Save (tui ?w)) \<and>
     timers wn = timers ?w @ replicate (length ?es) (2000, MessageReturn)"
    by blast
  then have "handleEvents ?es ?w = Continue ?w2 \<and> currentView (tui ?w2) = ConfirmAction \<and>
     calls ?w2 = [CallCreate Customers, CallCreate Customers] \<and>
     timers ?w2 = [(2000, MessageReturn), (2000, MessageReturn)]"
    using r c by (simp add: confirming_def numeral_2_eq_2)
  then have "\<exists>w2. handleEvents ?es ?w = Continue w2 \<and>
      currentView (tui w2) = ConfirmAction \<and>
      calls w2 = [CallCreate Customers, CallCreate Customers] \<and>
      timers w2 = [(2000, MessageReturn), (2000, MessageReturn)] \<and>
      paints w2 = [ShowMessage CustomerCreated False, ShowMessage CustomerCreated False] \<and>
      map (\<lambda>r. r ''id'') (customers (db w2)) =
        [JStr (str ''c1''), JStr (str ''c2''), JStr (str ''u1''), JStr (str ''u2'')] \<and>
      map (\<lambda>r. r ''CustomerName'') (customers (db w2)) =
        [JStr (str ''Ada Lovelace''), JStr (str ''Bob''), JStr (str ''Ada''), JStr (str ''Ada'')]"
    using e2 by (intro exI [of _ ?w2]) simp
  then show ?thesis using a i l by simp
qed

theorem confirmation_left_early_counterexample:
  "paintsAfter (handleKeyPress (str ''u1'') [0x0D]
      (exampleWorld (confirmingSave (newFormAt CustomerForm 0 (str ''Ada'')))))
     = Some [ShowMessage CustomerCreated False] \<and>
   viewAfter (handleKeyPress (str ''u1'') [0x0D]
      (exampleWorld (confirmingSave (newFormAt CustomerForm 0 (str ''Ada'')))))
     = Some ConfirmAction \<and>
   viewAfter (handleConfirmation [] keyEsc
      (executeFormSave (str ''u1'') (exampleWorld (confirmingSave (newFormAt CustomerForm 0 (str ''Ada''))))))
     = Some ConfirmAction \<and>
   viewAfter (handleEvents [KeyPress [0x0D] (str ''u1''), KeyPress keyEsc []]
      (exampleWorld (confirmingSave (newFormAt CustomerForm 0 (str ''Ada'')))))
     = Some CustomerForm \<and>
   timersAfter (handleEvents [KeyPress [0x0D] (str ''u1''), KeyPress keyEsc []]
      (exampleWorld (confirmingSave (newFormAt CustomerForm 0 (str ''Ada'')))))
     = Some [(2000, MessageReturn)] \<and>
   viewAfter (handleEvents [KeyPress [0x0D] (str ''u1''), KeyPress keyLeft [], KeyPress [0x0D] (str ''u2'')]
      (exampleWorld (confirmingSave (newFormAt CustomerForm 0 (str ''Ada'')))))
     = Some CustomerForm \<and>
   timersAfter (handleEvents [KeyPress [0x0D] (str ''u1''), KeyPress keyLeft [], KeyPress [0x0D] (str ''u2'')]
      (exampleWorld (confirmingSave (newFormAt CustomerForm 0 (str ''Ada'')))))
     = Some [(2000, MessageReturn)]"
proof -
  let ?w = "exampleWorld (confirmingSave (newFormAt CustomerForm 0 (str ''Ada'')))"
  let ?w1 = "executeFormSave (str ''u1'') ?w"
  have t1: "tui ?w1 = saveCurrentField (customerFormSteps ! 0) (confirmingSave (newFormAt CustomerForm 0 (str ''Ada'')))"
    by (simp add: tui_executeFormSave stepsOf_def customerFormSteps_def)
  have 1: "handleKeyPress (str ''u1'') [0x0D] ?w = Continue ?w1"
    by (simp add: confirm_enter isEnter_def)
  have p: "paints ?w1 = [ShowMessage CustomerCreated False]"
    by (simp add: executeFormSave_def saveCurrentField_def customerCreate_def isNull_def
        stepsOf_def customerFormSteps_def example_defs emptyObj_def jsor_def Let_def)
  have tm: "timers ?w1 = [(2000, MessageReturn)]"
    using executeFormSave_effects(3) [of ?w CustomerForm "str ''u1''"]
    by (simp add: endsWithForm_def stepsOf_def customerFormSteps_def)
  have 2: "handleConfirmation [] keyEsc ?w1 = Continue ?w1"
    by (simp add: handleConfirmation_def key_defs)
  have "\<exists>w'. handleKeyPress [] keyEsc ?w1 = Continue w' \<and> currentView (tui w') = CustomerForm \<and>
      timers w' = timers ?w1"
    by (simp add: handleKeyPress_def handleEscape_def t1 key_defs Let_def
        endsWithForm_def endsWithList_def customerFormSteps_def)
  then obtain w' where 3: "handleKeyPress [] keyEsc ?w1 = Continue w'" "currentView (tui w') = CustomerForm"
    "timers w' = timers ?w1"
    by blast
  let ?w2 = "redrawConfirmation ((tui ?w1)\<lparr>confirmIndex := 0\<rparr>) ?w1"
  have 4: "handleKeyPress [] keyLeft ?w1 = Continue ?w2"
    by (simp add: handleKeyPress_confirm handleConfirmation_def t1 key_defs)
  have "\<exists>w''. handleKeyPress (str ''u2'') [0x0D] ?w2 = Continue w'' \<and>
      currentView (tui w'') = CustomerForm \<and> timers w'' = timers ?w1"
    by (simp add: confirm_enter isEnter_def t1 returnToForm_def customerFormSteps_def)
  then obtain w'' where 5: "handleKeyPress (str ''u2'') [0x0D] ?w2 = Continue w''"
    "currentView (tui w'') = CustomerForm" "timers w'' = timers ?w1"
    by blast
  show ?thesis
    using 1 2 3 4 5 p tm by (simp add: viewAfter_def paintsAfter_def timersAfter_def t1)
qed


section \<open>A record that is gone\<close>

text \<open>
  Claim C4, evaluated. The second customer is open in the edit form and is no longer
  in the store. \<^verbatim>\<open>delete\<close> returns \<^verbatim>\<open>false\<close> and
  \<^verbatim>\<open>update\<close> returns \<^verbatim>\<open>null\<close>, and confirming the delete, or the
  save, paints the success message with \<open>isError = False\<close>. A persistence error (a
  new product saved without a price violates \<open>NOT NULL\<close>) paints the failure message
  with \<open>isError = True\<close>.
\<close>

theorem missing_record_reported_as_success:
  "customerGetById storeWithoutBob (JStr (str ''c2'')) = None \<and>
   snd (customerDelete storeWithoutBob (JStr (str ''c2''))) = False \<and>
   paintsAfter (handleEvents [KeyPress keyCtrlD [], KeyPress keyRight [], KeyPress [0x0D] []]
       (worldOf storeWithoutBob (editingForm CustomerForm bob))) =
     Some [DrawConfirmation (Some (ConfirmDelete (Named (str ''Bob'')))) Delete,
           DrawConfirmation (Some (ConfirmDelete (Named (str ''Bob'')))) Delete,
           ShowMessage CustomerDeleted False] \<and>
   customerUpdate storeWithoutBob (JStr (str ''c2'')) bob = Inr (storeWithoutBob, None) \<and>
   paintsAfter (handleEvents [KeyPress keyCtrlS [], KeyPress [0x0D] []]
       (worldOf storeWithoutBob (editingForm CustomerForm bob))) =
     Some [DrawConfirmation (Some (ConfirmSave (Named (str ''Bob'')) True)) Save,
           ShowMessage CustomerUpdated False] \<and>
   paintsAfter (handleEvents [KeyPress keyCtrlS [], KeyPress [0x0D] (str ''u1'')]
       (exampleWorld (newFormAt ProductForm 0 (str ''X-1'')))) =
     Some [DrawConfirmation (Some (ConfirmSave ThisProduct False)) Save,
           ShowMessage (SaveError (DbError (NotNullFailed ''products.Price''))) True]"
proof -
  have g: "customerGetById storeWithoutBob (JStr (str ''c2'')) = None"
    by (simp add: store_defs example_state_defs emptyObj_def)
  have d: "snd (customerDelete storeWithoutBob (JStr (str ''c2''))) = False"
    by (simp add: store_defs example_state_defs emptyObj_def)
  have u: "customerUpdate storeWithoutBob (JStr (str ''c2'')) bob = Inr (storeWithoutBob, None)"
    by (simp add: customerUpdate_def g)
  have 1: "paintsAfter (handleEvents [KeyPress keyCtrlD [], KeyPress keyRight [], KeyPress [0x0D] []]
       (worldOf storeWithoutBob (editingForm CustomerForm bob))) =
     Some [DrawConfirmation (Some (ConfirmDelete (Named (str ''Bob'')))) Delete,
           DrawConfirmation (Some (ConfirmDelete (Named (str ''Bob'')))) Delete,
           ShowMessage CustomerDeleted False]"
    by (simp add: paintsAfter_def run_defs example_state_defs key_defs store_defs emptyObj_def jsor_def)
  have 2: "paintsAfter (handleEvents [KeyPress keyCtrlS [], KeyPress [0x0D] []]
       (worldOf storeWithoutBob (editingForm CustomerForm bob))) =
     Some [DrawConfirmation (Some (ConfirmSave (Named (str ''Bob'')) True)) Save,
           ShowMessage CustomerUpdated False]"
    by (simp add: paintsAfter_def run_defs example_state_defs key_defs store_defs emptyObj_def jsor_def)
  have 3: "paintsAfter (handleEvents [KeyPress keyCtrlS [], KeyPress [0x0D] (str ''u1'')]
       (exampleWorld (newFormAt ProductForm 0 (str ''X-1'')))) =
     Some [DrawConfirmation (Some (ConfirmSave ThisProduct False)) Save,
           ShowMessage (SaveError (DbError (NotNullFailed ''products.Price''))) True]"
    by (simp add: paintsAfter_def run_defs example_state_defs key_defs store_defs emptyObj_def jsor_def)
  show ?thesis using g d u 1 2 3 by simp
qed


section \<open>Updates of the store\<close>

lemma filter_idIs_unique:
  "distinct (map (\<lambda>r. r ''id'') rows) \<Longrightarrow> row \<in> set rows \<Longrightarrow> idIs i row \<Longrightarrow>
   filter (idIs i) rows = [row]"
proof (induction rows)
  case Nil
  then show ?case by simp
next
  case (Cons x xs)
  show ?case
  proof (cases "idIs i x")
    case True
    have none: "filter (idIs i) xs = []"
    proof (rule ccontr)
      assume "filter (idIs i) xs \<noteq> []"
      then obtain y where y: "y \<in> set xs" "idIs i y"
        by (auto simp: filter_empty_conv)
      then have "y ''id'' = x ''id''" using True by (simp add: idIs_def)
      then have "x ''id'' \<in> (\<lambda>r. r ''id'') ` set xs" using y(1) by (metis imageI)
      then show False using Cons.prems(1) by simp
    qed
    have "row = x"
    proof (rule ccontr)
      assume "row \<noteq> x"
      then have "row \<in> set xs" using Cons.prems(2) by simp
      then have "filter (idIs i) xs \<noteq> []" using Cons.prems(3)
        by (auto simp: filter_empty_conv)
      then show False using none by simp
    qed
    then show ?thesis using True none by simp
  next
    case False
    then have "row \<in> set xs" using Cons.prems(2,3) by auto
    then have "filter (idIs i) xs = [row]" using Cons.IH Cons.prems by simp
    then show ?thesis using False by simp
  qed
qed

lemma parseLists_column:
  "f \<in> set customerColumns \<Longrightarrow> parseLists row f = row f"
  by (auto simp: parseLists_def customerColumns_def)

lemma boundRow_falsy:
  "\<not> truthy (updates f) \<Longrightarrow> current f = row f \<Longrightarrow> boundRow cols updates current row f = row f"
  by (simp add: boundRow_def jsor_def)

lemma customerUpdate_keeps:
  assumes "customerUpdate st i updates = Inr (st', r)"
    and "distinct (map (\<lambda>row. row ''id'') (customers st))"
    and "\<not> truthy (updates f)"
  shows "map (\<lambda>row. row f) (customers st') = map (\<lambda>row. row f) (customers st)"
    and "products st' = products st"
proof -
  show "products st' = products st"
    using assms(1) by (auto simp: customerUpdate_def Let_def split: option.splits if_splits)
  show "map (\<lambda>row. row f) (customers st') = map (\<lambda>row. row f) (customers st)"
  proof (cases "customerGetById st i")
    case None
    then show ?thesis using assms(1) by (simp add: customerUpdate_def)
  next
    case (Some current)
    then have st': "customers st' =
        map (\<lambda>row. if idIs i row then boundRow customerColumns updates current row else row)
          (customers st)"
      using assms(1) by (auto simp: customerUpdate_def Let_def split: if_splits)
    have "(if idIs i row then boundRow customerColumns updates current row else row) f = row f"
      if "row \<in> set (customers st)" for row
    proof (cases "idIs i row")
      case False
      then show ?thesis by simp
    next
      case True
      have "filter (idIs i) (customers st) = [row]"
        using filter_idIs_unique [OF assms(2) that True] .
      then have cur: "current = parseLists row"
        using Some by (simp add: customerGetById_def)
      show ?thesis
      proof (cases "f \<in> set customerColumns")
        case True
        then show ?thesis
          using assms(3) \<open>idIs i row\<close> cur by (simp add: boundRow_falsy parseLists_column)
      next
        case False
        then show ?thesis by (simp add: boundRow_def)
      qed
    qed
    then show ?thesis by (simp add: st')
  qed
qed

lemma productUpdate_keeps:
  assumes "productUpdate st i updates = Inr (st', r)"
    and "distinct (map (\<lambda>row. row ''id'') (products st))"
    and "\<not> truthy (updates f)"
  shows "map (\<lambda>row. row f) (products st') = map (\<lambda>row. row f) (products st)"
    and "customers st' = customers st"
proof -
  show "customers st' = customers st"
    using assms(1) by (auto simp: productUpdate_def Let_def split: option.splits if_splits)
  show "map (\<lambda>row. row f) (products st') = map (\<lambda>row. row f) (products st)"
  proof (cases "productGetById st i")
    case None
    then show ?thesis using assms(1) by (simp add: productUpdate_def)
  next
    case (Some current)
    then have st': "products st' =
        map (\<lambda>row. if idIs i row then boundRow productColumns updates current row else row)
          (products st)"
      using assms(1) by (auto simp: productUpdate_def Let_def split: if_splits)
    have "(if idIs i row then boundRow productColumns updates current row else row) f = row f"
      if "row \<in> set (products st)" for row
    proof (cases "idIs i row")
      case False
      then show ?thesis by simp
    next
      case True
      have "filter (idIs i) (products st) = [row]"
        using filter_idIs_unique [OF assms(2) that True] .
      then have cur: "current = row"
        using Some by (simp add: productGetById_def)
      show ?thesis
      proof (cases "f \<in> set productColumns")
        case True
        then show ?thesis
          using assms(3) \<open>idIs i row\<close> cur by (simp add: boundRow_falsy)
      next
        case False
        then show ?thesis by (simp add: boundRow_def)
      qed
    qed
    then show ?thesis by (simp add: st')
  qed
qed


lemma db_executeFormSave_edit:
  assumes "previousView (tui w) = Some v" "endsWithForm v"
    and "formStep (tui w) < length (stepsOf (v = CustomerForm))"
    and "truthy (editingId (tui w))"
  shows "db (executeFormSave u w) =
     (if v = CustomerForm then
        (case customerUpdate (db w) (editingId (tui w))
                (formData (saveCurrentField (stepsOf (v = CustomerForm) ! formStep (tui w)) (tui w))) of
           Inl e \<Rightarrow> db w | Inr (st', r) \<Rightarrow> st')
      else
        (case productUpdate (db w) (editingId (tui w))
                (formData (saveCurrentField (stepsOf (v = CustomerForm) ! formStep (tui w)) (tui w))) of
           Inl e \<Rightarrow> db w | Inr (st', r) \<Rightarrow> st'))"
proof -
  from assms(2) consider "v = CustomerForm" | "v = ProductForm" by (auto simp: endsWithForm_def)
  then show ?thesis
  proof cases
    case 1
    then show ?thesis using assms(1,3,4)
      by (auto simp: executeFormSave_def Let_def split: sum.splits prod.splits)
  next
    case 2
    then show ?thesis using assms(1,3,4)
      by (auto simp: executeFormSave_def Let_def split: sum.splits prod.splits)
  qed
qed

text \<open>
  Claim C9. In a table whose ids are distinct (the primary key), an update of a
  customer or of a product that succeeds leaves every column whose supplied value is
  falsy (for instance 0, the empty string or an absent value) at its stored value in
  every row. Hence a save confirmed in the edit form never stores a field whose
  committed value is falsy, such as a numeric field set to 0 or a text field cleared:
  that column is the same in every row after the save as before.
\<close>

theorem update_keeps_falsy_fields:
  "(\<not> truthy (updates f) \<and> distinct (map (\<lambda>row. row ''id'') (customers st)) \<and>
      customerUpdate st i updates = Inr (st', r) \<longrightarrow>
      map (\<lambda>row. row f) (customers st') = map (\<lambda>row. row f) (customers st)) \<and>
   (\<not> truthy (updates f) \<and> distinct (map (\<lambda>row. row ''id'') (products st)) \<and>
      productUpdate st i updates = Inr (st', r) \<longrightarrow>
      map (\<lambda>row. row f) (products st') = map (\<lambda>row. row f) (products st)) \<and>
   \<not> truthy (JNum (Fin 0 0)) \<and> \<not> truthy (JStr []) \<and> \<not> truthy JUndef \<and>
   (currentView (tui w) = ConfirmAction \<and> confirmIndex (tui w) = 1 \<and>
      confirmAction (tui w) = Some Save \<and> previousView (tui w) = Some v \<and> endsWithForm v \<and>
      formStep (tui w) < length (stepsOf (v = CustomerForm)) \<and> truthy (editingId (tui w)) \<and>
      isEnter enter \<and>
      distinct (map (\<lambda>row. row ''id'') (customers (db w))) \<and>
      distinct (map (\<lambda>row. row ''id'') (products (db w))) \<and>
      \<not> truthy (formData (saveCurrentField (stepsOf (v = CustomerForm) ! formStep (tui w)) (tui w)) g)
    \<longrightarrow> (\<exists>w'. handleKeyPress u enter w = Continue w' \<and>
           map (\<lambda>row. row g) (customers (db w')) = map (\<lambda>row. row g) (customers (db w)) \<and>
           map (\<lambda>row. row g) (products (db w')) = map (\<lambda>row. row g) (products (db w))))"
proof (intro conjI impI)
  assume "\<not> truthy (updates f) \<and> distinct (map (\<lambda>row. row ''id'') (customers st)) \<and>
      customerUpdate st i updates = Inr (st', r)"
  then show "map (\<lambda>row. row f) (customers st') = map (\<lambda>row. row f) (customers st)"
    using customerUpdate_keeps(1) by blast
next
  assume "\<not> truthy (updates f) \<and> distinct (map (\<lambda>row. row ''id'') (products st)) \<and>
      productUpdate st i updates = Inr (st', r)"
  then show "map (\<lambda>row. row f) (products st') = map (\<lambda>row. row f) (products st)"
    using productUpdate_keeps(1) by blast
next
  show "\<not> truthy (JNum (Fin 0 0))" by simp
  show "\<not> truthy (JStr [])" by simp
  show "\<not> truthy JUndef" by simp
next
  let ?fd = "formData (saveCurrentField (stepsOf (v = CustomerForm) ! formStep (tui w)) (tui w))"
  assume h: "currentView (tui w) = ConfirmAction \<and> confirmIndex (tui w) = 1 \<and>
      confirmAction (tui w) = Some Save \<and> previousView (tui w) = Some v \<and> endsWithForm v \<and>
      formStep (tui w) < length (stepsOf (v = CustomerForm)) \<and> truthy (editingId (tui w)) \<and>
      isEnter enter \<and>
      distinct (map (\<lambda>row. row ''id'') (customers (db w))) \<and>
      distinct (map (\<lambda>row. row ''id'') (products (db w))) \<and> \<not> truthy (?fd g)"
  then have 1: "handleKeyPress u enter w = Continue (executeFormSave u w)"
    by (simp add: confirm_enter)
  have d: "db (executeFormSave u w) =
     (if v = CustomerForm then
        (case customerUpdate (db w) (editingId (tui w)) ?fd of Inl e \<Rightarrow> db w | Inr (st', r) \<Rightarrow> st')
      else
        (case productUpdate (db w) (editingId (tui w)) ?fd of Inl e \<Rightarrow> db w | Inr (st', r) \<Rightarrow> st'))"
    using h by (intro db_executeFormSave_edit) simp_all
  have "map (\<lambda>row. row g) (customers (db (executeFormSave u w))) = map (\<lambda>row. row g) (customers (db w)) \<and>
        map (\<lambda>row. row g) (products (db (executeFormSave u w))) = map (\<lambda>row. row g) (products (db w))"
  proof (cases "v = CustomerForm")
    case True
    show ?thesis
    proof (cases "customerUpdate (db w) (editingId (tui w)) ?fd")
      case (Inl e)
      then show ?thesis using d True by simp
    next
      case (Inr p)
      obtain st' r where p: "p = (st', r)" by (cases p)
      from customerUpdate_keeps [of "db w" "editingId (tui w)" ?fd st' r g] Inr p h
      show ?thesis using d True by simp
    qed
  next
    case False
    show ?thesis
    proof (cases "productUpdate (db w) (editingId (tui w)) ?fd")
      case (Inl e)
      then show ?thesis using d False by simp
    next
      case (Inr p)
      obtain st' r where p: "p = (st', r)" by (cases p)
      from productUpdate_keeps [of "db w" "editingId (tui w)" ?fd st' r g] Inr p h
      show ?thesis using d False by simp
    qed
  qed
  then show "\<exists>w'. handleKeyPress u enter w = Continue w' \<and>
           map (\<lambda>row. row g) (customers (db w')) = map (\<lambda>row. row g) (customers (db w)) \<and>
           map (\<lambda>row. row g) (products (db w')) = map (\<lambda>row. row g) (products (db w))"
    using 1 by simp
qed


theorem update_keeps_falsy_fields_witness:
  "distinct (map (\<lambda>row. row ''id'') (customers exampleStore)) \<and>
   (\<exists>st' r. customerUpdate exampleStore (JStr (str ''c2''))
               (emptyObj(''CustomerDebt'' := JNum (Fin 0 0), ''CustomerPhone'' := JStr (str ''5551234'')))
             = Inr (st', r) \<and>
      map (\<lambda>row. row ''CustomerDebt'') (customers st') = [JNum (Fin 0 0), JNum (Fin 42 0)]) \<and>
   isEnter [0x0D] \<and>
   (\<exists>w'. handleKeyPress [] [0x0D]
            (exampleWorld (confirmingSave ((editingForm CustomerForm bob)
               \<lparr>formStep := 5, inputBuffer := str ''0''\<rparr>))) = Continue w' \<and>
      map (\<lambda>row. row ''CustomerDebt'') (customers (db w')) = [JNum (Fin 0 0), JNum (Fin 42 0)])"
proof -
  let ?upd = "emptyObj(''CustomerDebt'' := JNum (Fin 0 0), ''CustomerPhone'' := JStr (str ''5551234''))"
  let ?s = "confirmingSave ((editingForm CustomerForm bob)\<lparr>formStep := 5, inputBuffer := str ''0''\<rparr>)"
  let ?w = "exampleWorld ?s"
  have dc: "distinct (map (\<lambda>row. row ''id'') (customers exampleStore))"
    "distinct (map (\<lambda>row. row ''id'') (products exampleStore))"
    by (simp_all add: example_defs emptyObj_def)
  have col: "map (\<lambda>row. row ''CustomerDebt'') (customers exampleStore) = [JNum (Fin 0 0), JNum (Fin 42 0)]"
    by (simp add: example_defs emptyObj_def)
  have "\<exists>st' r. customerUpdate exampleStore (JStr (str ''c2'')) ?upd = Inr (st', r)"
    by (simp add: customerUpdate_def customerGetById_def idIs_def isNull_def parseLists_def
        example_defs emptyObj_def jsor_def Let_def)
  then obtain st' r where up: "customerUpdate exampleStore (JStr (str ''c2'')) ?upd = Inr (st', r)"
    by blast
  have f: "\<not> truthy (?upd ''CustomerDebt'')" by simp
  have e: "isEnter [0x0D]" by (simp add: isEnter_def)
  have p0: "parseFloat (str ''0'') = Fin 0 0" by (simp add: js_eval)
  have g: "\<not> truthy (formData (saveCurrentField (stepsOf (CustomerForm = CustomerForm) ! formStep (tui ?w)) (tui ?w))
      ''CustomerDebt'')"
    by (simp add: saveCurrentField_def stepsOf_def customerFormSteps_def p0)
  have h: "currentView (tui ?w) = ConfirmAction" "confirmIndex (tui ?w) = 1"
    "confirmAction (tui ?w) = Some Save" "previousView (tui ?w) = Some CustomerForm"
    "endsWithForm CustomerForm" "formStep (tui ?w) < length (stepsOf (CustomerForm = CustomerForm))"
    "truthy (editingId (tui ?w))"
    by (simp_all add: endsWithForm_def stepsOf_def customerFormSteps_def bob_def)
  note inst = update_keeps_falsy_fields [where updates = "?upd" and f = "''CustomerDebt''"
      and st = exampleStore and i = "JStr (str ''c2'')" and st' = st' and r = r and w = "?w"
      and v = CustomerForm and enter = "[0x0D]" and u = "[]" and g = "''CustomerDebt''"]
  have 1: "map (\<lambda>row. row ''CustomerDebt'') (customers st') = [JNum (Fin 0 0), JNum (Fin 42 0)]"
    using inst f dc up col by simp
  have "\<exists>w'. handleKeyPress [] [0x0D] ?w = Continue w' \<and>
      map (\<lambda>row. row ''CustomerDebt'') (customers (db w')) = [JNum (Fin 0 0), JNum (Fin 42 0)] \<and>
      map (\<lambda>row. row ''CustomerDebt'') (products (db w')) =
        map (\<lambda>row. row ''CustomerDebt'') (products exampleStore)"
    using inst g h e dc col by simp
  then obtain w' where "handleKeyPress [] [0x0D] ?w = Continue w' \<and>
      map (\<lambda>row. row ''CustomerDebt'') (customers (db w')) = [JNum (Fin 0 0), JNum (Fin 42 0)] \<and>
      map (\<lambda>row. row ''CustomerDebt'') (products (db w')) =
        map (\<lambda>row. row ''CustomerDebt'') (products exampleStore)" ..
  then have 2: "\<exists>w'. handleKeyPress [] [0x0D] ?w = Continue w' \<and>
      map (\<lambda>row. row ''CustomerDebt'') (customers (db w')) = [JNum (Fin 0 0), JNum (Fin 42 0)]"
    by (intro exI [of _ w']) simp
  have 3: "\<exists>st' r. customerUpdate exampleStore (JStr (str ''c2'')) ?upd = Inr (st', r) \<and>
      map (\<lambda>row. row ''CustomerDebt'') (customers st') = [JNum (Fin 0 0), JNum (Fin 42 0)]"
    using up 1 by (intro exI [of _ st'] exI [of _ r]) simp
  show ?thesis using dc(1) 3 e 2 by (intro conjI) assumption+
qed



section \<open>Timers\<close>

lemma timers_handleMainMenu:
  "handleMainMenu key w = Continue w' \<Longrightarrow> \<exists>new. timers w' = timers w @ new"
  by (auto simp: handleMainMenu_def enterList_def showStats_def split: if_splits)

lemma timers_handleListView:
  "handleListView key w = Continue w' \<Longrightarrow> timers w' = timers w"
  by (auto simp: handleListView_def Let_def split: sum.splits if_splits)

lemma timers_handleFormView:
  "handleFormView key w = Continue w' \<Longrightarrow> timers w' = timers w"
  by (auto simp: handleFormView_def split: sum.splits if_splits)

lemma timers_executeFormSave:
  "\<exists>new. timers (executeFormSave u w) = timers w @ new"
  by (auto simp: executeFormSave_def Let_def split: sum.splits prod.splits)

lemma timers_executeFormDelete:
  "\<exists>new. timers (executeFormDelete w) = timers w @ new"
  by (auto simp: executeFormDelete_def Let_def split: sum.splits prod.splits)

lemma timers_returnToForm:
  "returnToForm w = Continue w' \<Longrightarrow> timers w' = timers w"
  by (auto simp: returnToForm_def split: if_splits)

lemma timers_handleConfirmation:
  "handleConfirmation u key w = Continue w' \<Longrightarrow> \<exists>new. timers w' = timers w @ new"
  using timers_executeFormSave [of u w] timers_executeFormDelete [of w] timers_returnToForm [of w w']
  by (auto simp: handleConfirmation_def split: if_splits)

lemma timers_handleEscape:
  "handleEscape w = Continue w' \<Longrightarrow> timers w' = timers w"
  by (auto simp: handleEscape_def Let_def split: if_splits)

lemma timers_handleKeyPress:
  assumes "handleKeyPress u key w = Continue w'"
  shows "\<exists>new. timers w' = timers w @ new"
proof -
  consider (s) "key = keyCtrlS \<and> endsWithForm (currentView (tui w))"
    | (d) "key = keyCtrlD \<and> endsWithForm (currentView (tui w)) \<and> truthy (editingId (tui w))"
    | (n) "key = keyCtrlN \<and> endsWithList (currentView (tui w))"
    | (e) "key = keyEsc"
    | (o) "handleKeyPress u key w =
           (case currentView (tui w) of
              MainMenu \<Rightarrow> handleMainMenu key w
            | CustomerList \<Rightarrow> handleListView key w
            | ProductList \<Rightarrow> handleListView key w
            | CustomerForm \<Rightarrow> handleFormView key w
            | ProductForm \<Rightarrow> handleFormView key w
            | ConfirmAction \<Rightarrow> handleConfirmation u key w)"
    using assms by (auto simp: handleKeyPress_def Let_def split: if_splits)
  then show ?thesis
  proof cases
    case s
    then show ?thesis using assms by (auto simp: handleKeyPress_ctrlS)
  next
    case d
    then show ?thesis using assms by (auto simp: handleKeyPress_ctrlD)
  next
    case n
    then show ?thesis using assms
      by (auto simp: handleKeyPress_def newForm_def key_defs Let_def)
  next
    case e
    then have "handleEscape w = Continue w'"
      using assms by (simp add: handleKeyPress_def key_defs Let_def)
    then show ?thesis using timers_handleEscape by simp
  next
    case o
    then show ?thesis
      using assms timers_handleMainMenu [of key w w'] timers_handleListView [of key w w']
        timers_handleFormView [of key w w'] timers_handleConfirmation [of u key w w']
      by (cases "currentView (tui w)") auto
  qed
qed


lemma timers_handleEvents:
  "\<forall>e\<in>set es. isKeyPress e \<Longrightarrow> handleEvents es w = Continue w' \<Longrightarrow>
   \<exists>new. timers w' = timers w @ new"
proof (induction es arbitrary: w)
  case Nil
  then show ?case by simp
next
  case (Cons e es)
  from Cons.prems(1) obtain key u where e: "e = KeyPress key u"
    by (cases e) (auto simp: isKeyPress_def)
  from Cons.prems(2) e obtain w1 where w1: "handleKeyPress u key w = Continue w1"
    "handleEvents es w1 = Continue w'"
    by (auto split: outcome.splits)
  from timers_handleKeyPress [OF w1(1)] obtain n1 where n1: "timers w1 = timers w @ n1" by blast
  from Cons.IH [OF _ w1(2)] Cons.prems(1) obtain n2 where n2: "timers w' = timers w1 @ n2" by auto
  show ?case using n1 n2 by simp
qed

lemma fireTimer_message:
  "i < length (timers w) \<Longrightarrow> snd (timers w ! i) = MessageReturn \<Longrightarrow>
   \<exists>w''. fireTimer i w = Some w'' \<and>
     timers w'' = take i (timers w) @ drop (Suc i) (timers w) \<and>
     currentView (tui w'') =
       (if previousView (tui w) = Some CustomerForm then CustomerList else ProductList) \<and>
     selectedIndex (tui w'') = 0 \<and> \<not> isSearching (tui w'') \<and> searchFilter (tui w'') = [] \<and>
     inputBuffer (tui w'') = [] \<and> editingId (tui w'') = JUndef \<and> formData (tui w'') = emptyObj"
  by (simp add: fireTimer_def messageReturn_def)

lemma fireTimer_stats:
  "i < length (timers w) \<Longrightarrow> snd (timers w ! i) = StatsReturn \<Longrightarrow>
   \<exists>w''. fireTimer i w = Some w'' \<and>
     timers w'' = take i (timers w) @ drop (Suc i) (timers w) \<and>
     currentView (tui w'') = MainMenu \<and> selectedIndex (tui w'') = 0"
  by (simp add: fireTimer_def statsReturn_def)

text \<open>
  Claim C8. \<^verbatim>\<open>showMessage\<close> starts a timer of 2000 ms and
  \<^verbatim>\<open>showStats\<close> one of 3000 ms. No key event cancels a pending timer: after
  any sequence of key events that the session survives, the timer is still pending
  with its delay and its callback. When it fires, whatever the session state has
  become, its callback overwrites the state: the Message callback sets the view to
  the customer list or the product list (by \<open>previousView\<close>) and resets the cursor,
  the search fields, the buffer, \<open>editingId\<close> and the form data; the Stats callback
  sets the view to the main menu and the cursor to 0.
\<close>

theorem timers_never_cancelled:
  assumes "\<forall>e\<in>set es. isKeyPress e" "handleEvents es w = Continue w'" "i < length (timers w)"
  shows "i < length (timers w') \<and> timers w' ! i = timers w ! i \<and>
    (snd (timers w ! i) = MessageReturn \<longrightarrow>
      (\<exists>w''. fireTimer i w' = Some w'' \<and>
         timers w'' = take i (timers w') @ drop (Suc i) (timers w') \<and>
         currentView (tui w'') =
           (if previousView (tui w') = Some CustomerForm then CustomerList else ProductList) \<and>
         selectedIndex (tui w'') = 0 \<and> \<not> isSearching (tui w'') \<and> searchFilter (tui w'') = [] \<and>
         inputBuffer (tui w'') = [] \<and> editingId (tui w'') = JUndef \<and>
         formData (tui w'') = emptyObj)) \<and>
    (snd (timers w ! i) = StatsReturn \<longrightarrow>
      (\<exists>w''. fireTimer i w' = Some w'' \<and>
         timers w'' = take i (timers w') @ drop (Suc i) (timers w') \<and>
         currentView (tui w'') = MainMenu \<and> selectedIndex (tui w'') = 0)) \<and>
    timers (showMessage m b w) = timers w @ [(2000, MessageReturn)] \<and>
    timers (showStats w) = timers w @ [(3000, StatsReturn)]"
proof -
  from timers_handleEvents [OF assms(1,2)] obtain new where new: "timers w' = timers w @ new"
    by blast
  have 1: "i < length (timers w')" "timers w' ! i = timers w ! i"
    using assms(3) new by (simp_all add: nth_append)
  have 2: "snd (timers w ! i) = MessageReturn \<longrightarrow>
      (\<exists>w''. fireTimer i w' = Some w'' \<and>
         timers w'' = take i (timers w') @ drop (Suc i) (timers w') \<and>
         currentView (tui w'') =
           (if previousView (tui w') = Some CustomerForm then CustomerList else ProductList) \<and>
         selectedIndex (tui w'') = 0 \<and> \<not> isSearching (tui w'') \<and> searchFilter (tui w'') = [] \<and>
         inputBuffer (tui w'') = [] \<and> editingId (tui w'') = JUndef \<and>
         formData (tui w'') = emptyObj)"
    using fireTimer_message [OF 1(1)] 1(2) by simp
  have 3: "snd (timers w ! i) = StatsReturn \<longrightarrow>
      (\<exists>w''. fireTimer i w' = Some w'' \<and>
         timers w'' = take i (timers w') @ drop (Suc i) (timers w') \<and>
         currentView (tui w'') = MainMenu \<and> selectedIndex (tui w'') = 0)"
    using fireTimer_stats [OF 1(1)] 1(2) by simp
  have 4: "timers (showMessage m b w) = timers w @ [(2000, MessageReturn)]"
    "timers (showStats w) = timers w @ [(3000, StatsReturn)]"
    by (simp_all add: showStats_def)
  show ?thesis using 1 2 3 4 by (intro conjI) assumption+
qed


theorem timers_never_cancelled_witness:
  "list_all isKeyPress [KeyPress keyEsc [], KeyPress keyEsc [], KeyPress keyEsc []] \<and>
   timers (executeFormSave (str ''u1'') (exampleWorld (confirmingSave (newFormAt CustomerForm 0 (str ''Ada'')))))
     = [(2000, MessageReturn)] \<and>
   (\<exists>w' w''. handleEvents [KeyPress keyEsc [], KeyPress keyEsc [], KeyPress keyEsc []]
        (executeFormSave (str ''u1'') (exampleWorld (confirmingSave (newFormAt CustomerForm 0 (str ''Ada'')))))
        = Continue w' \<and>
      currentView (tui w') = MainMenu \<and> timers w' ! 0 = (2000, MessageReturn) \<and>
      fireTimer 0 w' = Some w'' \<and> currentView (tui w'') = CustomerList \<and> timers w'' = [])"
proof -
  let ?w = "executeFormSave (str ''u1'') (exampleWorld (confirmingSave (newFormAt CustomerForm 0 (str ''Ada''))))"
  let ?es = "[KeyPress keyEsc [], KeyPress keyEsc [], KeyPress keyEsc []]"
  have k: "\<forall>e\<in>set ?es. isKeyPress e" by (simp add: isKeyPress_def)
  have t: "timers ?w = [(2000, MessageReturn)]"
    using executeFormSave_effects(3) [of "exampleWorld (confirmingSave (newFormAt CustomerForm 0 (str ''Ada'')))" CustomerForm "str ''u1''"]
    by (simp add: endsWithForm_def stepsOf_def customerFormSteps_def)
  have s: "tui ?w = saveCurrentField (customerFormSteps ! 0) (confirmingSave (newFormAt CustomerForm 0 (str ''Ada'')))"
    by (simp add: tui_executeFormSave stepsOf_def customerFormSteps_def)
  have "\<exists>w'. handleEvents ?es ?w = Continue w' \<and> currentView (tui w') = MainMenu \<and>
      previousView (tui w') = Some CustomerForm \<and> timers w' = [(2000, MessageReturn)]"
    by (simp add: handleKeyPress_def handleEscape_def s t key_defs Let_def endsWithForm_def
        endsWithList_def customerFormSteps_def)
  then obtain w' where w': "handleEvents ?es ?w = Continue w' \<and> currentView (tui w') = MainMenu \<and>
      previousView (tui w') = Some CustomerForm \<and> timers w' = [(2000, MessageReturn)]" ..
  have r: "handleEvents ?es ?w = Continue w'" using w' by simp
  have i: "0 < length (timers ?w)" by (simp add: t)
  have m: "snd (timers ?w ! 0) = MessageReturn" by (simp add: t)
  note inst = timers_never_cancelled [OF k r i, of CustomerCreated False]
  from inst have n: "timers w' ! 0 = timers ?w ! 0" by (elim conjE)
  from inst have "snd (timers ?w ! 0) = MessageReturn \<longrightarrow>
      (\<exists>w''. fireTimer 0 w' = Some w'' \<and>
         timers w'' = take 0 (timers w') @ drop (Suc 0) (timers w') \<and>
         currentView (tui w'') =
           (if previousView (tui w') = Some CustomerForm then CustomerList else ProductList) \<and>
         selectedIndex (tui w'') = 0 \<and> \<not> isSearching (tui w'') \<and> searchFilter (tui w'') = [] \<and>
         inputBuffer (tui w'') = [] \<and> editingId (tui w'') = JUndef \<and>
         formData (tui w'') = emptyObj)" by (elim conjE)
  with m obtain w'' where w'': "fireTimer 0 w' = Some w'' \<and>
         timers w'' = take 0 (timers w') @ drop (Suc 0) (timers w') \<and>
         currentView (tui w'') =
           (if previousView (tui w') = Some CustomerForm then CustomerList else ProductList) \<and>
         selectedIndex (tui w'') = 0 \<and> \<not> isSearching (tui w'') \<and> searchFilter (tui w'') = [] \<and>
         inputBuffer (tui w'') = [] \<and> editingId (tui w'') = JUndef \<and>
         formData (tui w'') = emptyObj" by (elim impE exE)
  have "\<exists>w' w''. handleEvents ?es ?w = Continue w' \<and>
      currentView (tui w') = MainMenu \<and> timers w' ! 0 = (2000, MessageReturn) \<and>
      fireTimer 0 w' = Some w'' \<and> currentView (tui w'') = CustomerList \<and> timers w'' = []"
    using w' w'' n t by (intro exI [of _ w'] exI [of _ w'']) simp
  then show ?thesis using k t by (simp add: isKeyPress_def)
qed



section \<open>Moving through a form without typing\<close>

lemma parseFloat_empty: "parseFloat [] = NaN"
  by (simp add: parseFloat_def)

lemma save_stable:
  assumes "isStable st (formData s (field st))" "inputBuffer s = bufferOf (formData s) st"
  shows "saveCurrentField st s = s"
proof (cases "formData s (field st)")
  case (JStr t)
  then have b: "inputBuffer s = t" using assms(2) by (simp add: bufferOf_def jsor_def)
  have c: "\<not> (numeric st \<and> inputBuffer s \<noteq> [])"
    using assms(1) JStr b by (auto simp: isStable_def)
  have d: "(formData s)(field st := JStr (inputBuffer s)) = formData s"
    using JStr b by (simp add: fun_upd_idem)
  have "saveCurrentField st s = s\<lparr>formData := (formData s)(field st := JStr (inputBuffer s))\<rparr>"
    unfolding saveCurrentField_def using c by (simp only: if_False)
  then show ?thesis by (simp add: d)
next
  case (JNum n)
  then have n: "numeric st" "numTruthy n" "parseFloat (numToString n) = n"
    using assms(1) by (simp_all add: isStable_def)
  have b: "inputBuffer s = numToString n" using assms(2) JNum n(2) by (simp add: bufferOf_def jsor_def)
  have ne: "numToString n \<noteq> []" using n(2,3) parseFloat_empty by (cases "numToString n") auto
  have "(formData s)(field st := JNum n) = formData s" using JNum by (simp add: fun_upd_idem)
  then show ?thesis using n b ne by (simp add: saveCurrentField_def)
qed (use assms(1) in \<open>simp_all add: isStable_def\<close>)

lemma moveToNextField_stable:
  assumes "formData s = seed" "stableSeed (stepsOf (currentView s = CustomerForm)) seed"
    and "formStep s < length (stepsOf (currentView s = CustomerForm))"
    and "inputBuffer s = bufferOf seed (stepsOf (currentView s = CustomerForm) ! formStep s)"
  shows "\<exists>s'. moveToNextField s = Inr s' \<and> formData s' = seed \<and> currentView s' = currentView s \<and>
     editingId s' = editingId s \<and>
     formStep s' < length (stepsOf (currentView s = CustomerForm)) \<and>
     inputBuffer s' = bufferOf seed (stepsOf (currentView s = CustomerForm) ! formStep s')"
proof -
  let ?steps = "stepsOf (currentView s = CustomerForm)"
  have "isStable (?steps ! formStep s) (formData s (field (?steps ! formStep s)))"
    using assms(1,2,3) by (simp add: stableSeed_def list_all_length)
  then have "saveCurrentField (?steps ! formStep s) s = s"
    using assms(1,4) by (intro save_stable) simp_all
  then show ?thesis using assms(1,3,4) by (simp add: moveToNextField_def Let_def)
qed

lemma moveToPrevField_stable:
  assumes "formData s = seed" "stableSeed (stepsOf (currentView s = CustomerForm)) seed"
    and "formStep s < length (stepsOf (currentView s = CustomerForm))"
    and "inputBuffer s = bufferOf seed (stepsOf (currentView s = CustomerForm) ! formStep s)"
  shows "\<exists>s'. moveToPrevField s = Inr s' \<and> formData s' = seed \<and> currentView s' = currentView s \<and>
     editingId s' = editingId s \<and>
     formStep s' < length (stepsOf (currentView s = CustomerForm)) \<and>
     inputBuffer s' = bufferOf seed (stepsOf (currentView s = CustomerForm) ! formStep s')"
proof -
  let ?steps = "stepsOf (currentView s = CustomerForm)"
  have "isStable (?steps ! formStep s) (formData s (field (?steps ! formStep s)))"
    using assms(1,2,3) by (simp add: stableSeed_def list_all_length)
  then have "saveCurrentField (?steps ! formStep s) s = s"
    using assms(1,4) by (intro save_stable) simp_all
  then show ?thesis using assms(1,3,4) by (auto simp: moveToPrevField_def Let_def)
qed


lemma handleKeyPress_navigation:
  assumes "endsWithForm (currentView (tui w))"
    and "key = keyUp \<or> key = keyDown \<or> key = keyTab \<or> isEnter key"
  shows "handleKeyPress u key w = handleFormView key w"
proof -
  have k: "key \<noteq> keyCtrlC" "key \<noteq> keyCtrlS" "key \<noteq> keyCtrlD" "key \<noteq> keyCtrlN" "key \<noteq> keyEsc"
    using assms(2) by (auto simp: key_defs)
  from assms(1) consider "currentView (tui w) = CustomerForm" | "currentView (tui w) = ProductForm"
    by (auto simp: endsWithForm_def)
  then show ?thesis
    by cases (simp_all add: handleKeyPress_dispatch [OF k])
qed

lemma handleFormView_navigation:
  assumes "key = keyUp \<or> key = keyDown \<or> key = keyTab \<or> isEnter key"
  shows "handleFormView key w =
     (case (if key = keyUp then moveToPrevField (tui w) else moveToNextField (tui w)) of
        Inl e \<Rightarrow> Crash e | Inr s \<Rightarrow> Continue (redrawForm s w))"
  using assms by (auto simp: handleFormView_def key_defs)

text \<open>One navigation key in a form that still shows a stable seed.\<close>

lemma navigation_step:
  assumes "endsWithForm (currentView (tui w))" "formData (tui w) = seed"
    and "stableSeed (stepsOf (currentView (tui w) = CustomerForm)) seed"
    and "formStep (tui w) < length (stepsOf (currentView (tui w) = CustomerForm))"
    and "inputBuffer (tui w) =
           bufferOf seed (stepsOf (currentView (tui w) = CustomerForm) ! formStep (tui w))"
    and "key = keyUp \<or> key = keyDown \<or> key = keyTab \<or> isEnter key"
  shows "\<exists>w'. handleKeyPress u key w = Continue w' \<and>
     currentView (tui w') = currentView (tui w) \<and> formData (tui w') = seed \<and>
     editingId (tui w') = editingId (tui w) \<and> db w' = db w \<and>
     formStep (tui w') < length (stepsOf (currentView (tui w) = CustomerForm)) \<and>
     inputBuffer (tui w') =
       bufferOf seed (stepsOf (currentView (tui w) = CustomerForm) ! formStep (tui w'))"
proof (cases "key = keyUp")
  case True
  from moveToPrevField_stable [OF assms(2,3,4,5)] obtain s' where
    s': "moveToPrevField (tui w) = Inr s' \<and> formData s' = seed \<and>
       currentView s' = currentView (tui w) \<and> editingId s' = editingId (tui w) \<and>
       formStep s' < length (stepsOf (currentView (tui w) = CustomerForm)) \<and>
       inputBuffer s' = bufferOf seed (stepsOf (currentView (tui w) = CustomerForm) ! formStep s')" ..
  have "handleKeyPress u key w = Continue (redrawForm s' w)"
    using True s' assms(1,6) by (simp add: handleKeyPress_navigation handleFormView_navigation)
  then show ?thesis using s' by (intro exI [of _ "redrawForm s' w"]) simp
next
  case False
  from moveToNextField_stable [OF assms(2,3,4,5)] obtain s' where
    s': "moveToNextField (tui w) = Inr s' \<and> formData s' = seed \<and>
       currentView s' = currentView (tui w) \<and> editingId s' = editingId (tui w) \<and>
       formStep s' < length (stepsOf (currentView (tui w) = CustomerForm)) \<and>
       inputBuffer s' = bufferOf seed (stepsOf (currentView (tui w) = CustomerForm) ! formStep s')" ..
  have "handleKeyPress u key w = Continue (redrawForm s' w)"
    using False s' assms(1,6) by (simp add: handleKeyPress_navigation handleFormView_navigation)
  then show ?thesis using s' by (intro exI [of _ "redrawForm s' w"]) simp
qed

lemma navigation_run:
  assumes "endsWithForm (currentView (tui w))" "formData (tui w) = seed"
    and "stableSeed (stepsOf (currentView (tui w) = CustomerForm)) seed"
    and "formStep (tui w) < length (stepsOf (currentView (tui w) = CustomerForm))"
    and "inputBuffer (tui w) =
           bufferOf seed (stepsOf (currentView (tui w) = CustomerForm) ! formStep (tui w))"
    and "\<forall>e\<in>set es. isNavigation e"
  shows "\<exists>w'. handleEvents es w = Continue w' \<and>
     currentView (tui w') = currentView (tui w) \<and> formData (tui w') = seed \<and>
     editingId (tui w') = editingId (tui w) \<and> db w' = db w"
  using assms
proof (induction es arbitrary: w)
  case Nil
  then show ?case by simp
next
  case (Cons e es)
  from Cons.prems(6) obtain key u where e: "e = KeyPress key u"
    "key = keyUp \<or> key = keyDown \<or> key = keyTab \<or> isEnter key"
    by (cases e) (auto simp: isNavigation_def)
  from navigation_step [OF Cons.prems(1,2,3,4,5) e(2), of u] obtain w1 where
    w1: "handleKeyPress u key w = Continue w1 \<and>
     currentView (tui w1) = currentView (tui w) \<and> formData (tui w1) = seed \<and>
     editingId (tui w1) = editingId (tui w) \<and> db w1 = db w \<and>
     formStep (tui w1) < length (stepsOf (currentView (tui w) = CustomerForm)) \<and>
     inputBuffer (tui w1) =
       bufferOf seed (stepsOf (currentView (tui w) = CustomerForm) ! formStep (tui w1))" ..
  have "\<exists>w'. handleEvents es w1 = Continue w' \<and>
     currentView (tui w') = currentView (tui w1) \<and> formData (tui w') = seed \<and>
     editingId (tui w') = editingId (tui w1) \<and> db w' = db w1"
    using w1 Cons.prems by (intro Cons.IH) simp_all
  then obtain w' where "handleEvents es w1 = Continue w' \<and>
     currentView (tui w') = currentView (tui w1) \<and> formData (tui w') = seed \<and>
     editingId (tui w') = editingId (tui w1) \<and> db w' = db w1" ..
  then show ?case using e(1) w1 by (intro exI [of _ w']) simp
qed

lemma handleListView_enter:
  assumes "filteredOf w = Inr records" "\<not> isSearching (tui w)" "isEnter key"
    and "0 \<le> selectedIndex (tui w)" "selectedIndex (tui w) < int (length records)"
  shows "handleListView key w =
     Continue (drawn (DrawForm (if currentView (tui w) = CustomerList then EditCustomer else EditProduct) True)
       ((called (CallGetAll (if currentView (tui w) = CustomerList then Customers else Products)) w)
          \<lparr>tui := (tui w)\<lparr>editingId := (records ! nat (selectedIndex (tui w))) ''id'',
                formData := records ! nat (selectedIndex (tui w)), formStep := 0,
                currentView := (if currentView (tui w) = CustomerList then CustomerForm else ProductForm),
                inputBuffer := bufferOf (records ! nat (selectedIndex (tui w)))
                   (stepsOf (currentView (tui w) = CustomerList) ! 0)\<rparr>\<rparr>))"
proof -
  have k: "key \<noteq> keyUp" "key \<noteq> keyDown" using assms(3) by (auto simp: key_defs)
  have l: "0 < length records" using assms(4,5) by auto
  show ?thesis
    using assms k l
    by (simp add: handleListView_def filteredOf_def listRecords_def Let_def)
qed

lemma isNavigation_forwardThenBack: "\<forall>e\<in>set (forwardThenBack n). isNavigation e"
  by (auto simp: forwardThenBack_def isNavigation_def)

text \<open>
  Claim C6 (as amended). Enter on a record of a list opens the edit form seeded with
  the record. If the record holds, for every step of the form, a value that a commit
  gives back (a string on a text step; on a numeric step a non-zero number that
  \<^verbatim>\<open>parseFloat\<close> reads back from its printed form, or the empty string), then
  any sequence of moves between the fields (Up, Down, Tab, Enter) with no typing in
  between, in particular forward through all steps and back to the first, leaves the
  form data equal to the seed.
\<close>

theorem navigation_keeps_stable_seed:
  assumes "endsWithList (currentView (tui w))" "\<not> isSearching (tui w)"
    and "filteredOf w = Inr records"
    and "0 \<le> selectedIndex (tui w)" "selectedIndex (tui w) < int (length records)"
    and "seed = records ! nat (selectedIndex (tui w))"
    and "stableSeed (stepsOf (currentView (tui w) = CustomerList)) seed"
    and "isEnter enter" "\<forall>e\<in>set es. isNavigation e"
  shows "\<exists>w'. handleEvents (KeyPress enter u # es) w = Continue w' \<and>
     currentView (tui w') = (if currentView (tui w) = CustomerList then CustomerForm else ProductForm) \<and>
     formData (tui w') = seed \<and> editingId (tui w') = seed ''id'' \<and> db w' = db w"
proof -
  let ?c = "currentView (tui w) = CustomerList"
  let ?w1 = "drawn (DrawForm (if ?c then EditCustomer else EditProduct) True)
       ((called (CallGetAll (if ?c then Customers else Products)) w)
          \<lparr>tui := (tui w)\<lparr>editingId := seed ''id'', formData := seed, formStep := 0,
                currentView := (if ?c then CustomerForm else ProductForm),
                inputBuffer := bufferOf seed (stepsOf ?c ! 0)\<rparr>\<rparr>)"
  have k: "enter \<noteq> keyCtrlC" "enter \<noteq> keyCtrlS" "enter \<noteq> keyCtrlD" "enter \<noteq> keyCtrlN"
    "enter \<noteq> keyEsc"
    using assms(8) by (auto simp: key_defs)
  from assms(1) consider "currentView (tui w) = CustomerList" | "currentView (tui w) = ProductList"
    by (auto simp: endsWithList_def)
  then have "handleKeyPress u enter w = handleListView enter w"
    by cases (simp_all add: handleKeyPress_dispatch [OF k])
  then have 1: "handleKeyPress u enter w = Continue ?w1"
    using handleListView_enter [OF assms(3,2,8,4,5)] assms(6) by simp
  have v: "(currentView (tui ?w1) = CustomerForm) = ?c"
    using assms(1) by (auto simp: endsWithList_def)
  have "\<exists>w'. handleEvents es ?w1 = Continue w' \<and>
     currentView (tui w') = currentView (tui ?w1) \<and> formData (tui w') = seed \<and>
     editingId (tui w') = editingId (tui ?w1) \<and> db w' = db ?w1"
  proof (rule navigation_run)
    show "endsWithForm (currentView (tui ?w1))" by (simp add: endsWithForm_def)
    show "formData (tui ?w1) = seed" by simp
    show "stableSeed (stepsOf (currentView (tui ?w1) = CustomerForm)) seed"
      using assms(7) v by simp
    show "formStep (tui ?w1) < length (stepsOf (currentView (tui ?w1) = CustomerForm))"
      by (simp add: stepsOf_def customerFormSteps_def productFormSteps_def)
    show "inputBuffer (tui ?w1) =
        bufferOf seed (stepsOf (currentView (tui ?w1) = CustomerForm) ! formStep (tui ?w1))"
      using v by simp
    show "\<forall>e\<in>set es. isNavigation e" by (rule assms(9))
  qed
  then obtain w' where "handleEvents es ?w1 = Continue w' \<and>
     currentView (tui w') = currentView (tui ?w1) \<and> formData (tui w') = seed \<and>
     editingId (tui w') = editingId (tui ?w1) \<and> db w' = db ?w1" ..
  then show ?thesis using 1 by (intro exI [of _ w']) simp
qed

theorem navigation_keeps_stable_seed_witness:
  "stableSeed customerFormSteps (parseLists bob) \<and> stableSeed productFormSteps lamp \<and>
   isEnter [0x0D] \<and> list_all isNavigation (forwardThenBack 6) \<and>
   (\<exists>w'. handleEvents (KeyPress [0x0D] [] # forwardThenBack 6) (listAt CustomerList 1) = Continue w' \<and>
      currentView (tui w') = CustomerForm \<and> formData (tui w') = parseLists bob \<and>
      editingId (tui w') = JStr (str ''c2'')) \<and>
   (\<exists>w'. handleEvents (KeyPress [0x0D] [] # forwardThenBack 7) (listAt ProductList 0) = Continue w' \<and>
      currentView (tui w') = ProductForm \<and> formData (tui w') = lamp)"
proof -
  have sb: "stableSeed (stepsOf (currentView (tui (listAt CustomerList 1)) = CustomerList)) (parseLists bob)"
    by (simp add: stableSeed_def isStable_def stepsOf_def customerFormSteps_def listAt_def
        initialState_def parseLists_def bob_def js_eval)
  have sl: "stableSeed (stepsOf (currentView (tui (listAt ProductList 0)) = CustomerList)) lamp"
    by (simp add: stableSeed_def isStable_def stepsOf_def productFormSteps_def listAt_def
        initialState_def lamp_def js_eval)
  have e: "isEnter [0x0D]" by (simp add: isEnter_def)
  have fc: "filteredOf (listAt CustomerList 1) = Inr [parseLists ada, parseLists bob]"
    by (simp add: filteredOf_def listRecords_def filterRecords_def listAt_def initialState_def
        customerGetAll_def exampleStore_def)
  have fp: "filteredOf (listAt ProductList 0) = Inr [lamp]"
    by (simp add: filteredOf_def listRecords_def filterRecords_def listAt_def initialState_def
        productGetAll_def exampleStore_def)
  have lc: "endsWithList (currentView (tui (listAt CustomerList 1)))"
    "\<not> isSearching (tui (listAt CustomerList 1))"
    "0 \<le> selectedIndex (tui (listAt CustomerList 1))"
    "selectedIndex (tui (listAt CustomerList 1)) < int (length [parseLists ada, parseLists bob])"
    "parseLists bob = [parseLists ada, parseLists bob] ! nat (selectedIndex (tui (listAt CustomerList 1)))"
    by (simp_all add: listAt_def initialState_def endsWithList_def)
  have lp: "endsWithList (currentView (tui (listAt ProductList 0)))"
    "\<not> isSearching (tui (listAt ProductList 0))"
    "0 \<le> selectedIndex (tui (listAt ProductList 0))"
    "selectedIndex (tui (listAt ProductList 0)) < int (length [lamp])"
    "lamp = [lamp] ! nat (selectedIndex (tui (listAt ProductList 0)))"
    by (simp_all add: listAt_def initialState_def endsWithList_def)
  have vc: "currentView (tui (listAt CustomerList 1)) = CustomerList"
    "currentView (tui (listAt ProductList 0)) = ProductList"
    by (simp_all add: listAt_def initialState_def)
  have ic: "parseLists bob ''id'' = JStr (str ''c2'')" by (simp add: parseLists_def bob_def)
  from navigation_keeps_stable_seed [OF lc(1,2) fc lc(3,4,5) sb e isNavigation_forwardThenBack [of 6],
      where u = "[]"]
  obtain w1 where w1: "handleEvents (KeyPress [0x0D] [] # forwardThenBack 6) (listAt CustomerList 1)
        = Continue w1 \<and>
      currentView (tui w1) =
        (if currentView (tui (listAt CustomerList 1)) = CustomerList then CustomerForm else ProductForm) \<and>
      formData (tui w1) = parseLists bob \<and> editingId (tui w1) = parseLists bob ''id'' \<and>
      db w1 = db (listAt CustomerList 1)" ..
  have 1: "\<exists>w'. handleEvents (KeyPress [0x0D] [] # forwardThenBack 6) (listAt CustomerList 1) = Continue w' \<and>
      currentView (tui w') = CustomerForm \<and> formData (tui w') = parseLists bob \<and>
      editingId (tui w') = JStr (str ''c2'')"
    using w1 by (intro exI [of _ w1]) (simp add: vc ic)
  from navigation_keeps_stable_seed [OF lp(1,2) fp lp(3,4,5) sl e isNavigation_forwardThenBack [of 7],
      where u = "[]"]
  obtain w2 where w2: "handleEvents (KeyPress [0x0D] [] # forwardThenBack 7) (listAt ProductList 0)
        = Continue w2 \<and>
      currentView (tui w2) =
        (if currentView (tui (listAt ProductList 0)) = CustomerList then CustomerForm else ProductForm) \<and>
      formData (tui w2) = lamp \<and> editingId (tui w2) = lamp ''id'' \<and>
      db w2 = db (listAt ProductList 0)" ..
  have 2: "\<exists>w'. handleEvents (KeyPress [0x0D] [] # forwardThenBack 7) (listAt ProductList 0) = Continue w' \<and>
      currentView (tui w') = ProductForm \<and> formData (tui w') = lamp"
    using w2 by (intro exI [of _ w2]) (simp add: vc)
  have n: "list_all isNavigation (forwardThenBack 6)"
    using isNavigation_forwardThenBack [of 6] by (simp add: list_all_iff)
  have sb': "stableSeed customerFormSteps (parseLists bob)" using sb by (simp add: vc stepsOf_def)
  have sl': "stableSeed productFormSteps lamp" using sl by (simp add: vc stepsOf_def)
  show ?thesis
    using sb' sl' e n 1 2 by (intro conjI) assumption+
qed


theorem navigation_rewrites_falsy_seed_counterexample:
  "parseLists ada ''CustomerDebt'' = JNum (Fin 0 0) \<and>
   fieldAfter (handleEvents (KeyPress [0x0D] [] # forwardThenBack 6) (listAt CustomerList 0))
     ''CustomerDebt'' = Some (JStr []) \<and>
   emptyObj ''CustomerName'' = JUndef \<and>
   fieldAfter (handleEvents (KeyPress keyCtrlN [] # forwardThenBack 6) (listAt CustomerList 0))
     ''CustomerName'' = Some (JStr [])"
proof -
  have a: "parseLists ada ''CustomerDebt'' = JNum (Fin 0 0)"
    by (simp add: parseLists_def ada_def emptyObj_def)
  have 1: "fieldAfter (handleEvents (KeyPress [0x0D] [] # forwardThenBack 6) (listAt CustomerList 0))
     ''CustomerDebt'' = Some (JStr [])"
    by (simp add: fieldAfter_def forwardThenBack_def listAt_def eval_nat_numeral
        run_defs example_state_defs key_defs store_defs emptyObj_def jsor_def)
  have 2: "fieldAfter (handleEvents (KeyPress keyCtrlN [] # forwardThenBack 6) (listAt CustomerList 0))
     ''CustomerName'' = Some (JStr [])"
    by (simp add: fieldAfter_def forwardThenBack_def listAt_def eval_nat_numeral
        run_defs example_state_defs key_defs store_defs emptyObj_def jsor_def)
  show ?thesis using a 1 2 by (simp add: emptyObj_def)
qed

end
